theory Spec2Isabelle
  imports Main "HOL-Library.Word"
begin

section \<open>The CIGAR model (bam\_alignment.hpp)\<close>

text \<open>
  The source stores an operation kind as a \<open>char\<close> and every length, position and
  reference id as an \<open>int32_t\<close>. Kinds stay characters here, so that every statement
  about kinds also covers characters that are no CIGAR constant; 32-bit integers are
  words, whose addition and subtraction wrap around (signed overflow is undefined in
  C++; the model fixes the two's complement result).
\<close>

type_synonym int32 = "32 word"
type_synonym uint32 = "32 word"
type_synonym uint64 = "64 word"

definition BAM_CIGAR_MATCH_CHAR :: char where "BAM_CIGAR_MATCH_CHAR = CHR ''M''"
definition BAM_CIGAR_INS_CHAR :: char where "BAM_CIGAR_INS_CHAR = CHR ''I''"
definition BAM_CIGAR_DEL_CHAR :: char where "BAM_CIGAR_DEL_CHAR = CHR ''D''"
definition BAM_CIGAR_REFSKIP_CHAR :: char where "BAM_CIGAR_REFSKIP_CHAR = CHR ''N''"
definition BAM_CIGAR_SOFTCLIP_CHAR :: char where "BAM_CIGAR_SOFTCLIP_CHAR = CHR ''S''"
definition BAM_CIGAR_HARDCLIP_CHAR :: char where "BAM_CIGAR_HARDCLIP_CHAR = CHR ''H''"
definition BAM_CIGAR_PAD_CHAR :: char where "BAM_CIGAR_PAD_CHAR = CHR ''P''"
definition BAM_CIGAR_EQUAL_CHAR :: char where "BAM_CIGAR_EQUAL_CHAR = CHR ''=''"
definition BAM_CIGAR_DIFF_CHAR :: char where "BAM_CIGAR_DIFF_CHAR = CHR ''X''"
definition BAM_CIGAR_BACK_CHAR :: char where "BAM_CIGAR_BACK_CHAR = CHR ''B''"

lemmas cigar_chars =
  BAM_CIGAR_MATCH_CHAR_def BAM_CIGAR_INS_CHAR_def BAM_CIGAR_DEL_CHAR_def
  BAM_CIGAR_REFSKIP_CHAR_def BAM_CIGAR_SOFTCLIP_CHAR_def BAM_CIGAR_HARDCLIP_CHAR_def
  BAM_CIGAR_PAD_CHAR_def BAM_CIGAR_EQUAL_CHAR_def BAM_CIGAR_DIFF_CHAR_def
  BAM_CIGAR_BACK_CHAR_def

text \<open>\<open>struct CigarOp { char type; int32_t length; }\<close>\<close>

record CigarOp =
  type_op :: char
  length_op :: int32

text \<open>
  The two \<open>switch\<close> statements of \<open>CigarOp\<close>: the listed cases return true, the
  \<open>default\<close> case returns false.
\<close>

definition opConsumesQuery :: "char \<Rightarrow> bool" where
  "opConsumesQuery op =
     (if op = BAM_CIGAR_MATCH_CHAR then True
      else if op = BAM_CIGAR_INS_CHAR then True
      else if op = BAM_CIGAR_SOFTCLIP_CHAR then True
      else if op = BAM_CIGAR_EQUAL_CHAR then True
      else if op = BAM_CIGAR_DIFF_CHAR then True
      else False)"

definition opConsumesReference :: "char \<Rightarrow> bool" where
  "opConsumesReference op =
     (if op = BAM_CIGAR_MATCH_CHAR then True
      else if op = BAM_CIGAR_DEL_CHAR then True
      else if op = BAM_CIGAR_REFSKIP_CHAR then True
      else if op = BAM_CIGAR_EQUAL_CHAR then True
      else if op = BAM_CIGAR_DIFF_CHAR then True
      else False)"

text \<open>
  \<open>class BamAlignment\<close>: the scalar fields and the operation vector. The raw htslib
  record \<open>b\<close> with its \<open>managed\<close> flag and the three enumeration fields
  (strandedness, orientation, strand), whose types the header takes from
  bam\_master.hpp, are read by none of the functions below and are left out.
\<close>

record BamAlignment =
  alFlag :: uint32
  position :: int32
  alignedLength :: int32
  refId :: int32
  mateId :: int32
  matePos :: int32
  cigar :: "CigarOp list"

text \<open>
  The accessors of the header. \<open>cigar[index]\<close> is an unchecked vector access; every
  caller below guards a read with \<open>i < getNbCigarOps\<close>, and a write outside the vector
  (undefined in C++) leaves the list as it is in the model. Indices are natural numbers:
  the callers count in \<open>size_t\<close> and the accessors take \<open>uint32_t\<close>, which agree on
  every index below \<open>2^32\<close>.
\<close>

definition getCigarOpAt :: "BamAlignment \<Rightarrow> nat \<Rightarrow> CigarOp" where
  "getCigarOpAt al i = cigar al ! i"

definition setCigarOpAt :: "BamAlignment \<Rightarrow> nat \<Rightarrow> CigarOp \<Rightarrow> BamAlignment" where
  "setCigarOpAt al i cigarOp = al\<lparr>cigar := (cigar al)[i := cigarOp]\<rparr>"

definition getNbCigarOps :: "BamAlignment \<Rightarrow> nat" where
  "getNbCigarOps al = length (cigar al)"

definition getPosition :: "BamAlignment \<Rightarrow> int32" where
  "getPosition al = position al"

definition getReferenceId :: "BamAlignment \<Rightarrow> int32" where
  "getReferenceId al = refId al"

section \<open>Reference sequences and the junction index\<close>

text \<open>
  \<open>RefSeq\<close>, \<open>Intron\<close> and \<open>JunctionSystem\<close> are classes of the repository that
  neither bam\_filter.cc nor bam\_alignment.hpp defines; bam\_filter.cc builds
  \<open>Intron(RefSeq(refId, refName, refLength), lEnd, rStart - 1)\<close> and asks
  \<open>js.getJunction\<close> for it.
\<close>

text \<open>Modelled from the spec: the record ReferenceSequence \<open>{id, name, length}\<close>.\<close>

record RefSeq =
  index :: int32
  name :: string
  length_ref :: int32

text \<open>
  Modelled from the spec: the record Junction (Intron) \<open>{reference, start, end}\<close>, both
  bounds 0-based and inclusive.
\<close>

record Intron =
  ref :: RefSeq
  start :: int32
  end_intron :: int32

text \<open>
  Modelled from the spec: the JunctionIndex, a lookup keyed by \<open>(refId, start, end)\<close>
  in which presence means trusted and matching is exact. The model is the set of keys.
\<close>

type_synonym JunctionSystem = "(int32 \<times> int32 \<times> int32) set"

text \<open>
  Modelled from the spec: \<open>JunctionSystem::getJunction\<close>, the lookup of a junction by its
  key \<open>(reference.id, start, end)\<close>. The source compares the returned pointer with
  \<open>nullptr\<close>; the model returns whether a junction was found.
\<close>

definition getJunction :: "JunctionSystem \<Rightarrow> Intron \<Rightarrow> bool" where
  "getJunction js location = ((index (ref location), start location, end_intron location) \<in> js)"

section \<open>The store of alignment objects\<close>

text \<open>
  \<open>clipMSR\<close> receives the alignment by reference, allocates a copy with
  \<open>make_shared<BamAlignment>(al)\<close> and writes to the copy through the pointer while it
  keeps reading the original. The model keeps the alignment objects in a store, which is
  a list addressed by position: a reference or pointer is an index into the list, and an
  allocation appends to it.
\<close>

type_synonym store = "BamAlignment list"

text \<open>
  Modelled from the spec: the copy constructor \<open>BamAlignment(const BamAlignment&)\<close>,
  which the header declares as making a deep copy and bam\_alignment.hpp does not
  define: the clipped copy is a new value with the fields of the original.
\<close>

definition make_shared :: "store \<Rightarrow> BamAlignment \<Rightarrow> store \<times> nat" where
  "make_shared h other = (h @ [other], length h)"

text \<open>
  \<open>refs[refId]\<close> is an unchecked access to the vector of reference sequences. Outside
  the vector the behaviour of the C++ is undefined; the model stops with an error
  rather than pick a result.
\<close>

datatype error = RefIdOutOfRange

definition refInRange :: "RefSeq list \<Rightarrow> int32 \<Rightarrow> bool" where
  "refInRange refs rid = (0 \<le> sint rid \<and> nat (sint rid) < length refs)"

definition refAt :: "RefSeq list \<Rightarrow> int32 \<Rightarrow> RefSeq" where
  "refAt refs rid = refs ! nat (sint rid)"

section \<open>The containment check (bam\_filter.cc, lines 75 to 99)\<close>

text \<open>
  The \<open>for\<close> loop of \<open>containsJunctionInSystem\<close>, from index \<open>i\<close> on, with the two
  local variables the loop assigns. The alignment is read through its address \<open>a\<close> in
  the store; the arguments \<open>rid\<close> (the local \<open>refId\<close> of the source, renamed because the
  record field has that name), \<open>refName\<close> and \<open>refLength\<close> are the locals read
  before the loop.
\<close>

function containsLoop ::
  "store \<Rightarrow> nat \<Rightarrow> int32 \<Rightarrow> string \<Rightarrow> int32 \<Rightarrow> JunctionSystem \<Rightarrow> nat \<Rightarrow> int32 \<Rightarrow> int32 \<Rightarrow> bool"
where
  "containsLoop h a rid refName refLength js i lEnd rStart =
     (if i < getNbCigarOps (h ! a) then
        (let op = getCigarOpAt (h ! a) i in
         if type_op op = BAM_CIGAR_REFSKIP_CHAR then
           (let rStart = lEnd + length_op op;
                location = \<lparr>ref = \<lparr>index = rid, name = refName, length_ref = refLength\<rparr>,
                            start = lEnd, end_intron = rStart - 1\<rparr>
            in if getJunction js location then True
               else containsLoop h a rid refName refLength js (Suc i) lEnd rStart)
         else if opConsumesReference (type_op op) then
           containsLoop h a rid refName refLength js (Suc i) (lEnd + length_op op) rStart
         else containsLoop h a rid refName refLength js (Suc i) lEnd rStart)
      else False)"
  by pat_completeness auto
termination
  by (relation "measure (\<lambda>(h, a, rid, refName, refLength, js, i, lEnd, rStart).
                           getNbCigarOps (h ! a) - i)") auto

declare containsLoop.simps [simp del]

text \<open>
  The function returns its result together with the store, which no statement of the
  function writes to.
\<close>

definition containsJunctionInSystem ::
  "store \<Rightarrow> nat \<Rightarrow> RefSeq list \<Rightarrow> JunctionSystem \<Rightarrow> error + (bool \<times> store)" where
  "containsJunctionInSystem h a refs js =
     (let rid = getReferenceId (h ! a) in
      if \<not> refInRange refs rid then Inl RefIdOutOfRange
      else
        let refName = name (refAt refs rid);
            refLength = length_ref (refAt refs rid);
            lStart = getPosition (h ! a);
            lEnd = lStart;
            rStart = lStart
        in Inr (containsLoop h a rid refName refLength js 0 lEnd rStart, h))"

section \<open>The MSR clipping engine (bam\_filter.cc, lines 101 to 149)\<close>

text \<open>
  The enumeration \<open>ClipMode\<close> is declared in bam\_filter.hpp; bam\_filter.cc uses its
  three values.
\<close>

datatype ClipMode = HARD | SOFT | COMPLETE

text \<open>
  \<open>modifiedAlignment->setCigarOpAt(j, CigarOp(modOp, al.getCigarOpAt(j).length))\<close>:
  a read of the original at address \<open>a\<close> and a write through the pointer \<open>p\<close>.
\<close>

definition clipOpAt :: "store \<Rightarrow> nat \<Rightarrow> nat \<Rightarrow> char \<Rightarrow> nat \<Rightarrow> store" where
  "clipOpAt h a p modOp j =
     h[p := setCigarOpAt (h ! p) j \<lparr>type_op = modOp, length_op = length_op (getCigarOpAt (h ! a) j)\<rparr>]"

text \<open>The inner loop \<open>for (size_t j = opStart; j < i; j++)\<close> of lines 131 to 133.\<close>

function clipFor :: "nat \<Rightarrow> nat \<Rightarrow> char \<Rightarrow> nat \<Rightarrow> nat \<Rightarrow> store \<Rightarrow> store" where
  "clipFor a p modOp i j h =
     (if j < i then clipFor a p modOp i (Suc j) (clipOpAt h a p modOp j) else h)"
  by pat_completeness auto
termination
  by (relation "measure (\<lambda>(a, p, modOp, i, j, h). i - j)") auto

declare clipFor.simps [simp del]

lemma getNbCigarOps_clipOpAt [simp]:
  "getNbCigarOps (clipOpAt h a p modOp j ! q) = getNbCigarOps (h ! q)"
proof (cases "p < length h")
  case True
  then show ?thesis
    by (cases "q = p") (simp_all add: clipOpAt_def getNbCigarOps_def setCigarOpAt_def)
next
  case False
  then show ?thesis
    by (simp add: clipOpAt_def list_update_beyond)
qed

text \<open>
  The trailing loop \<open>for (size_t j = opStart; j < al.getNbCigarOps(); j++)\<close> of lines
  143 to 145; its bound is read from the store at every round.
\<close>

function clipTail :: "nat \<Rightarrow> nat \<Rightarrow> char \<Rightarrow> nat \<Rightarrow> store \<Rightarrow> store" where
  "clipTail a p modOp j h =
     (if j < getNbCigarOps (h ! a) then clipTail a p modOp (Suc j) (clipOpAt h a p modOp j)
      else h)"
  by pat_completeness auto
termination
  by (relation "measure (\<lambda>(a, p, modOp, j, h). getNbCigarOps (h ! a) - j)") auto

declare clipTail.simps [simp del]

text \<open>The local variables of \<open>clipMSR\<close> that its loop assigns, with the store.\<close>

record ClipState =
  heap :: store
  lEnd :: int32
  rStart :: int32
  opStart :: nat
  lastGood :: bool
  ab :: bool

text \<open>
  The body of the loop \<open>for (size_t i = 0; i < al.getNbCigarOps(); i++)\<close>, lines 117 to
  140, at index \<open>i\<close>. The statements of the source are the bindings \<open>s1\<close> to \<open>s4\<close>, in
  their order.
\<close>

definition clipStep ::
  "nat \<Rightarrow> nat \<Rightarrow> char \<Rightarrow> int32 \<Rightarrow> string \<Rightarrow> int32 \<Rightarrow> JunctionSystem \<Rightarrow> nat \<Rightarrow> ClipState \<Rightarrow> ClipState"
where
  "clipStep a p modOp rid refName refLength js i s =
     (let op = getCigarOpAt (heap s ! a) i in
      if type_op op = BAM_CIGAR_REFSKIP_CHAR then
        (let s1 = s\<lparr>rStart := lEnd s + length_op op\<rparr>;
             location = \<lparr>ref = \<lparr>index = rid, name = refName, length_ref = refLength\<rparr>,
                         start = lEnd s1, end_intron = rStart s1 - 1\<rparr>;
             s4 = (if getJunction js location then s1\<lparr>ab := False, lastGood := True\<rparr>
                   else
                     (let s2 = (if lastGood s1 then s1\<lparr>opStart := i\<rparr> else s1);
                          s3 = s2\<lparr>heap := clipFor a p modOp i (opStart s2) (heap s2)\<rparr>
                      in s3\<lparr>lastGood := False\<rparr>))
         in s4\<lparr>opStart := i + 1\<rparr>)
      else if opConsumesReference (type_op op) then s\<lparr>lEnd := lEnd s + length_op op\<rparr>
      else s)"

lemma getNbCigarOps_clipFor [simp]:
  "getNbCigarOps (clipFor a p modOp i j h ! q) = getNbCigarOps (h ! q)"
proof (induction a p modOp i j h rule: clipFor.induct)
  case (1 a p modOp i j h)
  show ?case
  proof (cases "j < i")
    case True
    then show ?thesis using 1 by (subst clipFor.simps) simp
  next
    case False
    then show ?thesis by (subst clipFor.simps) simp
  qed
qed

lemma getNbCigarOps_clipStep [simp]:
  "getNbCigarOps (heap (clipStep a p modOp rid refName refLength js i s) ! q)
     = getNbCigarOps (heap s ! q)"
  by (simp add: clipStep_def Let_def)

function clipLoop ::
  "nat \<Rightarrow> nat \<Rightarrow> char \<Rightarrow> int32 \<Rightarrow> string \<Rightarrow> int32 \<Rightarrow> JunctionSystem \<Rightarrow> nat \<Rightarrow> ClipState \<Rightarrow> ClipState"
where
  "clipLoop a p modOp rid refName refLength js i s =
     (if i < getNbCigarOps (heap s ! a)
      then clipLoop a p modOp rid refName refLength js (Suc i)
             (clipStep a p modOp rid refName refLength js i s)
      else s)"
  by pat_completeness auto
termination
  by (relation "measure (\<lambda>(a, p, modOp, rid, refName, refLength, js, i, s).
                           getNbCigarOps (heap s ! a) - i)") auto

declare clipLoop.simps [simp del]

text \<open>The initialiser of the local constant \<open>modOp\<close>, lines 113 to 115.\<close>

definition modOpFor :: "ClipMode \<Rightarrow> char" where
  "modOpFor clipMode =
     (if clipMode = HARD then BAM_CIGAR_HARDCLIP_CHAR
      else if clipMode = SOFT then BAM_CIGAR_SOFTCLIP_CHAR
      else BAM_CIGAR_DEL_CHAR)"

text \<open>The statement after the loop, lines 142 to 146.\<close>

definition clipFinish :: "nat \<Rightarrow> nat \<Rightarrow> char \<Rightarrow> ClipState \<Rightarrow> store" where
  "clipFinish a p modOp s =
     (if \<not> lastGood s then clipTail a p modOp (opStart s) (heap s) else heap s)"

text \<open>
  \<open>clipMSR\<close> returns the store, the pointer \<open>modifiedAlignment\<close> and the value it
  assigns to the reference parameter \<open>allBad\<close>. The member \<open>clipMode\<close> of the class is
  the first argument.
\<close>

definition clipMSR ::
  "ClipMode \<Rightarrow> store \<Rightarrow> nat \<Rightarrow> RefSeq list \<Rightarrow> JunctionSystem \<Rightarrow> error + (store \<times> nat \<times> bool)"
where
  "clipMSR clipMode h a refs js =
     (let rid = getReferenceId (h ! a) in
      if \<not> refInRange refs rid then Inl RefIdOutOfRange
      else
        let refName = name (refAt refs rid);
            refLength = length_ref (refAt refs rid);
            lStart = getPosition (h ! a);
            (h1, modifiedAlignment) = make_shared h (h ! a);
            modOp = modOpFor clipMode;
            s = clipLoop a modifiedAlignment modOp rid refName refLength js 0
                  \<lparr>heap = h1, lEnd = lStart, rStart = lStart, opStart = 0,
                   lastGood = False, ab = True\<rparr>;
            h2 = clipFinish a modifiedAlignment modOp s
        in Inr (h2, modifiedAlignment, ab s))"

section \<open>The filtering loop (bam\_filter.cc, lines 187 to 222)\<close>

text \<open>
  Modelled from the spec: \<open>BamAlignment::isSplicedRead\<close>, which the header declares
  and does not define: true iff the operation sequence contains at least one
  ReferenceSkip.
\<close>

definition isSplicedRead :: "BamAlignment \<Rightarrow> bool" where
  "isSplicedRead al = list_ex (\<lambda>op. type_op op = BAM_CIGAR_REFSKIP_CHAR) (cigar al)"

text \<open>
  Modelled from the spec: \<open>BamAlignment::getNbJunctionsInRead\<close>, which the header
  declares with result type \<open>uint32_t\<close> and does not define: the count of ReferenceSkip
  operations.
\<close>

definition getNbJunctionsInRead :: "BamAlignment \<Rightarrow> uint32" where
  "getNbJunctionsInRead al =
     of_nat (length (filter (\<lambda>op. type_op op = BAM_CIGAR_REFSKIP_CHAR) (cigar al)))"

definition isMultiplySplicedRead :: "BamAlignment \<Rightarrow> bool" where
  "isMultiplySplicedRead al = (getNbJunctionsInRead al > 1)"

text \<open>
  The three sinks hold the records written to them, oldest first (\<open>BamWriter::write\<close>
  is an external collaborator); \<open>mod\<close> is a constant of HOL, so that sink is
  \<open>mod_writer\<close>. The three counters are \<open>uint64_t\<close>.
\<close>

record FilterState =
  writer :: "BamAlignment list"
  mod_writer :: "BamAlignment list"
  unmod :: "BamAlignment list"
  nbReadsIn :: uint64
  nbReadsOut :: uint64
  nbReadsModifiedOut :: uint64

text \<open>
  The body of \<open>while (reader.next())\<close> for the record \<open>cur\<close> the reader holds.
  \<open>reader.current()\<close> is a reference to that record: the model puts the record at
  address 0 of a store of its own, and \<open>al\<close> is that address. What a sink receives is
  read from the store at the time of the write.
\<close>

definition filterStep ::
  "ClipMode \<Rightarrow> bool \<Rightarrow> RefSeq list \<Rightarrow> JunctionSystem \<Rightarrow> FilterState \<Rightarrow> BamAlignment
     \<Rightarrow> error + FilterState"
where
  "filterStep clipMode saveMSRs refs js st0 cur =
     (let h = [cur]; al = 0;
          st = st0\<lparr>nbReadsIn := nbReadsIn st0 + 1\<rparr>
      in
        if isSplicedRead (h ! al) then
          if clipMode = COMPLETE \<or> \<not> isMultiplySplicedRead (h ! al) then
            (case containsJunctionInSystem h al refs js of
               Inl e \<Rightarrow> Inl e
             | Inr (found, h') \<Rightarrow>
                 if found then
                   Inr (st\<lparr>writer := writer st @ [h' ! al], nbReadsOut := nbReadsOut st + 1\<rparr>)
                 else Inr st)
          else
            (case clipMSR clipMode h al refs js of
               Inl e \<Rightarrow> Inl e
             | Inr (h', clipped, allBad) \<Rightarrow>
                 if \<not> allBad then
                   Inr (st\<lparr>writer := writer st @ [h' ! clipped],
                           mod_writer := (if saveMSRs then mod_writer st @ [h' ! clipped]
                                          else mod_writer st),
                           unmod := (if saveMSRs then unmod st @ [h' ! al] else unmod st),
                           nbReadsModifiedOut := nbReadsModifiedOut st + 1,
                           nbReadsOut := nbReadsOut st + 1\<rparr>)
                 else Inr st)
        else Inr (st\<lparr>writer := writer st @ [h ! al], nbReadsOut := nbReadsOut st + 1\<rparr>))"

text \<open>
  The loop over the records the reader yields, in order. An error ends the run.
\<close>

fun filterLoop ::
  "ClipMode \<Rightarrow> bool \<Rightarrow> RefSeq list \<Rightarrow> JunctionSystem \<Rightarrow> FilterState \<Rightarrow> BamAlignment list
     \<Rightarrow> error + FilterState"
where
  "filterLoop clipMode saveMSRs refs js st [] = Inr st"
| "filterLoop clipMode saveMSRs refs js st (cur # rest) =
     (case filterStep clipMode saveMSRs refs js st cur of
        Inl e \<Rightarrow> Inl e
      | Inr st' \<Rightarrow> filterLoop clipMode saveMSRs refs js st' rest)"

section \<open>Notions used to state the properties\<close>

text \<open>
  The operation list in which the positions \<open>lo \<le> k < hi\<close> hold the kind \<open>modOp\<close>
  with the length of \<open>src\<close> at \<open>k\<close>, and every other position is as in \<open>c\<close>.
\<close>

definition clipRange :: "char \<Rightarrow> CigarOp list \<Rightarrow> nat \<Rightarrow> nat \<Rightarrow> CigarOp list \<Rightarrow> CigarOp list" where
  "clipRange modOp src lo hi c =
     map (\<lambda>k. if lo \<le> k \<and> k < hi then \<lparr>type_op = modOp, length_op = length_op (src ! k)\<rparr> else c ! k)
       [0..<length c]"

text \<open>
  What the engine may do to one operation: leave it, or, if it is no ReferenceSkip,
  replace its kind by \<open>modOp\<close> and keep its length.
\<close>

definition clipRel :: "char \<Rightarrow> CigarOp \<Rightarrow> CigarOp \<Rightarrow> bool" where
  "clipRel modOp x y =
     (y = x \<or> (type_op x \<noteq> BAM_CIGAR_REFSKIP_CHAR \<and> y = \<lparr>type_op = modOp, length_op = length_op x\<rparr>))"

text \<open>
  The invariant of the loop of \<open>clipMSR\<close> at index \<open>i\<close>, for the store \<open>h1\<close> at the
  start of the loop, the original at \<open>a\<close> and the copy at \<open>p\<close>: only the copy differs
  from \<open>h1\<close>, and only in its operations, each of which is related to the original's by
  \<open>clipRel\<close>; no operation from \<open>opStart\<close> up to \<open>i\<close> is a ReferenceSkip.
\<close>

definition clipInv :: "store \<Rightarrow> nat \<Rightarrow> nat \<Rightarrow> char \<Rightarrow> nat \<Rightarrow> ClipState \<Rightarrow> bool" where
  "clipInv h1 a p modOp i s =
     (length (heap s) = length h1 \<and>
      (\<forall>q. q \<noteq> p \<longrightarrow> heap s ! q = h1 ! q) \<and>
      heap s ! p = (h1 ! a)\<lparr>cigar := cigar (heap s ! p)\<rparr> \<and>
      list_all2 (clipRel modOp) (cigar (h1 ! a)) (cigar (heap s ! p)) \<and>
      opStart s \<le> i \<and>
      (\<forall>k. opStart s \<le> k \<and> k < i \<and> k < length (cigar (h1 ! a))
            \<longrightarrow> type_op (cigar (h1 ! a) ! k) \<noteq> BAM_CIGAR_REFSKIP_CHAR))"

text \<open>
  The junctions the walk over the operations builds, in order, from the cursor \<open>c\<close>
  on: the values of \<open>location\<close> at lines 88 and 121, with both loops' handling of the
  cursor \<open>lEnd\<close> (a ReferenceSkip leaves it, another reference-consuming kind adds its
  length).
\<close>

fun derivedIntrons :: "int32 \<Rightarrow> string \<Rightarrow> int32 \<Rightarrow> int32 \<Rightarrow> CigarOp list \<Rightarrow> Intron list" where
  "derivedIntrons rid refName refLength c [] = []"
| "derivedIntrons rid refName refLength c (op # ops) =
     (if type_op op = BAM_CIGAR_REFSKIP_CHAR then
        \<lparr>ref = \<lparr>index = rid, name = refName, length_ref = refLength\<rparr>,
         start = c, end_intron = c + length_op op - 1\<rparr>
          # derivedIntrons rid refName refLength c ops
      else if opConsumesReference (type_op op) then
        derivedIntrons rid refName refLength (c + length_op op) ops
      else derivedIntrons rid refName refLength c ops)"

text \<open>The junctions derived from an alignment, with the reference looked up as both functions do.\<close>

definition junctionsOf :: "RefSeq list \<Rightarrow> BamAlignment \<Rightarrow> Intron list" where
  "junctionsOf refs al =
     derivedIntrons (getReferenceId al) (name (refAt refs (getReferenceId al)))
       (length_ref (refAt refs (getReferenceId al))) (getPosition al) (cigar al)"

text \<open>
  The cursor \<open>lEnd\<close> after a walk over \<open>ops\<close> that started with the cursor at \<open>c\<close>:
  \<open>c\<close> plus the lengths of the reference-consuming operations of \<open>ops\<close> that are no
  ReferenceSkip.
\<close>

definition cursorAfter :: "int32 \<Rightarrow> CigarOp list \<Rightarrow> int32" where
  "cursorAfter c ops =
     c + (\<Sum>op\<leftarrow>ops. if type_op op \<noteq> BAM_CIGAR_REFSKIP_CHAR \<and> opConsumesReference (type_op op)
                     then length_op op else 0)"

text \<open>
  The notions of the state machine of the engine, read off the alignment and the
  junction index alone. \<open>prevSkip ops i\<close> is the index of the last ReferenceSkip before
  index \<open>i\<close>, if there is one.
\<close>

fun prevSkip :: "CigarOp list \<Rightarrow> nat \<Rightarrow> nat option" where
  "prevSkip ops 0 = None"
| "prevSkip ops (Suc i) =
     (if type_op (ops ! i) = BAM_CIGAR_REFSKIP_CHAR then Some i else prevSkip ops i)"

text \<open>
  The spec's regionStart on reaching index \<open>i\<close>: the index after the last ReferenceSkip
  before \<open>i\<close>, and 0 if there is none.
\<close>

definition regionStartAt :: "CigarOp list \<Rightarrow> nat \<Rightarrow> nat" where
  "regionStartAt ops i = (case prevSkip ops i of None \<Rightarrow> 0 | Some j \<Rightarrow> Suc j)"

text \<open>
  The junction the walk derives for the operation at index \<open>i\<close>: it starts at the cursor
  after the first \<open>i\<close> operations and ends at that start plus the length of the operation
  minus 1.
\<close>

definition junctionAt :: "RefSeq list \<Rightarrow> BamAlignment \<Rightarrow> nat \<Rightarrow> Intron" where
  "junctionAt refs al i =
     \<lparr>ref = \<lparr>index = getReferenceId al, name = name (refAt refs (getReferenceId al)),
              length_ref = length_ref (refAt refs (getReferenceId al))\<rparr>,
      start = cursorAfter (getPosition al) (take i (cigar al)),
      end_intron = cursorAfter (getPosition al) (take i (cigar al)) + length_op (cigar al ! i) - 1\<rparr>"

text \<open>Whether the junction derived at index \<open>i\<close> is in the junction index.\<close>

definition skipTrusted :: "JunctionSystem \<Rightarrow> RefSeq list \<Rightarrow> BamAlignment \<Rightarrow> nat \<Rightarrow> bool" where
  "skipTrusted js refs al i = getJunction js (junctionAt refs al i)"

text \<open>
  The spec's lastJunctionTrusted on reaching index \<open>i\<close>: there is a ReferenceSkip before
  \<open>i\<close> and the junction of the last one is in the junction index.
\<close>

definition prevTrusted :: "JunctionSystem \<Rightarrow> RefSeq list \<Rightarrow> BamAlignment \<Rightarrow> nat \<Rightarrow> bool" where
  "prevTrusted js refs al i =
     (case prevSkip (cigar al) i of None \<Rightarrow> False | Some j \<Rightarrow> skipTrusted js refs al j)"

text \<open>
  Whether the operation at index \<open>k\<close> lies in a range rewritten for a ReferenceSkip before
  index \<open>i\<close>: some index \<open>j < i\<close> holds a ReferenceSkip whose junction is not in the
  index, and \<open>k\<close> lies in the half-open range that ends before \<open>j\<close> and starts at
  regionStart, or at \<open>j\<close> itself when the junction evaluated before \<open>j\<close> was trusted.
\<close>

definition clippedBefore ::
  "JunctionSystem \<Rightarrow> RefSeq list \<Rightarrow> BamAlignment \<Rightarrow> nat \<Rightarrow> nat \<Rightarrow> bool" where
  "clippedBefore js refs al i k =
     list_ex (\<lambda>j. type_op (cigar al ! j) = BAM_CIGAR_REFSKIP_CHAR \<and> \<not> skipTrusted js refs al j
                 \<and> (if prevTrusted js refs al j then j else regionStartAt (cigar al) j) \<le> k \<and> k < j)
       [0..<i]"

text \<open>
  Whether the operation at index \<open>k\<close> is rewritten in the whole pass: for a
  ReferenceSkip, as above, or by the trailing range, which runs from regionStart to the
  last index when the last junction evaluated was not trusted or there was none.
\<close>

definition clippedAt :: "JunctionSystem \<Rightarrow> RefSeq list \<Rightarrow> BamAlignment \<Rightarrow> nat \<Rightarrow> bool" where
  "clippedAt js refs al k =
     (clippedBefore js refs al (length (cigar al)) k
      \<or> (\<not> prevTrusted js refs al (length (cigar al))
          \<and> regionStartAt (cigar al) (length (cigar al)) \<le> k))"

text \<open>
  The second invariant of the loop of \<open>clipMSR\<close> at index \<open>i\<close>, for the original \<open>al\<close>
  and the copy at \<open>p\<close>: the cursor, \<open>opStart\<close> and \<open>lastGood\<close> are the notions above, and
  the copy holds exactly the rewrites for the ReferenceSkips before \<open>i\<close>.
\<close>

definition runInv ::
  "char \<Rightarrow> JunctionSystem \<Rightarrow> RefSeq list \<Rightarrow> BamAlignment \<Rightarrow> nat \<Rightarrow> nat \<Rightarrow> ClipState \<Rightarrow> bool" where
  "runInv modOp js refs al p i s =
     (i \<le> length (cigar al) \<and>
      lEnd s = cursorAfter (getPosition al) (take i (cigar al)) \<and>
      opStart s = regionStartAt (cigar al) i \<and>
      lastGood s = prevTrusted js refs al i \<and>
      (\<forall>k<length (cigar al).
         cigar (heap s ! p) ! k =
           (if clippedBefore js refs al i k
            then \<lparr>type_op = modOp, length_op = length_op (cigar al ! k)\<rparr>
            else cigar al ! k)))"

text \<open>
  The sum of the lengths of the reference-consuming operations of a list, each length
  read as the signed number it is.
\<close>

definition sumRefConsuming :: "CigarOp list \<Rightarrow> int" where
  "sumRefConsuming ops =
     (\<Sum>op\<leftarrow>ops. if opConsumesReference (type_op op) then sint (length_op op) else 0)"

text \<open>
  The part of that sum the engine takes away: the lengths of the reference-consuming
  operations of \<open>ops\<close> whose kind differs in \<open>ops'\<close>.
\<close>

definition sumRefRewritten :: "CigarOp list \<Rightarrow> CigarOp list \<Rightarrow> int" where
  "sumRefRewritten ops ops' =
     (\<Sum>(x, y)\<leftarrow>zip ops ops'.
        if opConsumesReference (type_op x) \<and> type_op y \<noteq> type_op x then sint (length_op x) else 0)"

text \<open>
  The inputs of the examples: one reference sequence, and the alignment of the spec's
  example at position 1000, whose two ReferenceSkips cover the reference positions
  1050 to 1249 and 1280 to 1779.
\<close>

definition ex_refs :: "RefSeq list" where
  "ex_refs = [\<lparr>index = 0, name = ''chr1'', length_ref = 100000\<rparr>]"

definition ex_al :: BamAlignment where
  "ex_al = \<lparr>alFlag = 0, position = 1000, alignedLength = 800, refId = 0, mateId = 0,
            matePos = 0,
            cigar = [\<lparr>type_op = CHR ''M'', length_op = 50\<rparr>, \<lparr>type_op = CHR ''N'', length_op = 200\<rparr>,
                     \<lparr>type_op = CHR ''M'', length_op = 30\<rparr>, \<lparr>type_op = CHR ''N'', length_op = 500\<rparr>,
                     \<lparr>type_op = CHR ''M'', length_op = 20\<rparr>]\<rparr>"

text \<open>
  A singly spliced and an unspliced alignment, the clipped copy of the example, and the
  empty state of the filter.
\<close>

definition ex_st :: FilterState where
  "ex_st = \<lparr>writer = [], mod_writer = [], unmod = [], nbReadsIn = 0, nbReadsOut = 0,
            nbReadsModifiedOut = 0\<rparr>"

definition ex_single :: BamAlignment where
  "ex_single = ex_al\<lparr>cigar := [\<lparr>type_op = CHR ''M'', length_op = 50\<rparr>,
                 \<lparr>type_op = CHR ''N'', length_op = 200\<rparr>, \<lparr>type_op = CHR ''M'', length_op = 30\<rparr>]\<rparr>"

definition ex_unspliced :: BamAlignment where
  "ex_unspliced = ex_al\<lparr>cigar := [\<lparr>type_op = CHR ''M'', length_op = 100\<rparr>]\<rparr>"

definition ex_clipped :: BamAlignment where
  "ex_clipped = ex_al\<lparr>cigar := [\<lparr>type_op = CHR ''M'', length_op = 50\<rparr>,
                \<lparr>type_op = CHR ''N'', length_op = 200\<rparr>, \<lparr>type_op = CHR ''M'', length_op = 30\<rparr>,
                \<lparr>type_op = CHR ''N'', length_op = 500\<rparr>, \<lparr>type_op = CHR ''H'', length_op = 20\<rparr>]\<rparr>"

text \<open>
  The state of the engine on the example when its loop reaches index 1 with an empty
  junction index, and the copy of the example with every segment clipped.
\<close>

definition ex_state :: ClipState where
  "ex_state = \<lparr>heap = [ex_al, ex_al], lEnd = 1050, rStart = 1000, opStart = 0,
               lastGood = False, ab = True\<rparr>"

definition ex_all_clipped :: BamAlignment where
  "ex_all_clipped = ex_al\<lparr>cigar := [\<lparr>type_op = CHR ''H'', length_op = 50\<rparr>,
                \<lparr>type_op = CHR ''N'', length_op = 200\<rparr>, \<lparr>type_op = CHR ''H'', length_op = 30\<rparr>,
                \<lparr>type_op = CHR ''N'', length_op = 500\<rparr>, \<lparr>type_op = CHR ''H'', length_op = 20\<rparr>]\<rparr>"

text \<open>The rules that evaluate the functions on a given input.\<close>

lemmas engine_eval =
  clipMSR_def modOpFor_def refInRange_def refAt_def getReferenceId_def getPosition_def
  make_shared_def clipLoop.simps clipStep_def clipFor.simps clipTail.simps clipFinish_def
  clipOpAt_def
  getJunction_def getCigarOpAt_def setCigarOpAt_def getNbCigarOps_def cigar_chars
  opConsumesReference_def Let_def

lemmas classify_eval =
  isSplicedRead_def isMultiplySplicedRead_def getNbJunctionsInRead_def cigar_chars

lemmas contains_eval =
  containsJunctionInSystem_def containsLoop.simps refInRange_def refAt_def getReferenceId_def
  getPosition_def getJunction_def getCigarOpAt_def getNbCigarOps_def cigar_chars
  opConsumesReference_def Let_def

section \<open>The inner loops\<close>

lemma length_clipOpAt [simp]: "length (clipOpAt h a p modOp j) = length h"
  by (simp add: clipOpAt_def)

lemma clipOpAt_other [simp]: "q \<noteq> p \<Longrightarrow> clipOpAt h a p modOp j ! q = h ! q"
  by (simp add: clipOpAt_def)

lemma clipOpAt_target:
  "p < length h \<Longrightarrow>
   clipOpAt h a p modOp j ! p =
     (h ! p)\<lparr>cigar := (cigar (h ! p))[j := \<lparr>type_op = modOp, length_op = length_op (cigar (h ! a) ! j)\<rparr>]\<rparr>"
  by (simp add: clipOpAt_def setCigarOpAt_def getCigarOpAt_def)

lemma length_clipRange [simp]: "length (clipRange modOp src lo hi c) = length c"
  by (simp add: clipRange_def)

lemma nth_clipRange:
  "k < length c \<Longrightarrow> clipRange modOp src lo hi c ! k =
     (if lo \<le> k \<and> k < hi then \<lparr>type_op = modOp, length_op = length_op (src ! k)\<rparr> else c ! k)"
  by (simp add: clipRange_def)

lemma clipRange_empty: "hi \<le> lo \<Longrightarrow> clipRange modOp src lo hi c = c"
  by (rule nth_equalityI) (auto simp: nth_clipRange)

lemma clipRange_step:
  "j < hi \<Longrightarrow>
   clipRange modOp src (Suc j) hi (c[j := \<lparr>type_op = modOp, length_op = length_op (src ! j)\<rparr>])
     = clipRange modOp src j hi c"
proof (rule nth_equalityI)
  show "length (clipRange modOp src (Suc j) hi (c[j := \<lparr>type_op = modOp, length_op = length_op (src ! j)\<rparr>]))
          = length (clipRange modOp src j hi c)"
    by simp
next
  fix k
  assume "k < length (clipRange modOp src (Suc j) hi (c[j := \<lparr>type_op = modOp, length_op = length_op (src ! j)\<rparr>]))"
  then have k: "k < length c" by simp
  assume j: "j < hi"
  show "clipRange modOp src (Suc j) hi (c[j := \<lparr>type_op = modOp, length_op = length_op (src ! j)\<rparr>]) ! k
          = clipRange modOp src j hi c ! k"
  proof (cases "k = j")
    case True
    then show ?thesis using k j by (simp add: nth_clipRange)
  next
    case False
    then have "(Suc j \<le> k) = (j \<le> k)" by arith
    then show ?thesis using k False by (simp add: nth_clipRange)
  qed
qed

lemma length_clipFor [simp]: "length (clipFor a p modOp i j h) = length h"
proof (induction a p modOp i j h rule: clipFor.induct)
  case (1 a p modOp i j h)
  then show ?case by (subst clipFor.simps) simp
qed

lemma clipFor_other [simp]: "q \<noteq> p \<Longrightarrow> clipFor a p modOp i j h ! q = h ! q"
proof (induction a p modOp i j h rule: clipFor.induct)
  case (1 a p modOp i j h)
  then show ?case by (subst clipFor.simps) simp
qed

lemma clipFor_target:
  "a \<noteq> p \<Longrightarrow> p < length h \<Longrightarrow>
   clipFor a p modOp i j h ! p = (h ! p)\<lparr>cigar := clipRange modOp (cigar (h ! a)) j i (cigar (h ! p))\<rparr>"
proof (induction a p modOp i j h rule: clipFor.induct)
  case (1 a p modOp i j h)
  show ?case
  proof (cases "j < i")
    case True
    have "clipFor a p modOp i j h ! p = clipFor a p modOp i (Suc j) (clipOpAt h a p modOp j) ! p"
      using True by (subst clipFor.simps) simp
    also have "\<dots> = (clipOpAt h a p modOp j ! p)\<lparr>cigar :=
        clipRange modOp (cigar (clipOpAt h a p modOp j ! a)) (Suc j) i (cigar (clipOpAt h a p modOp j ! p))\<rparr>"
      using 1 True by simp
    also have "\<dots> = (h ! p)\<lparr>cigar := clipRange modOp (cigar (h ! a)) j i (cigar (h ! p))\<rparr>"
      using 1(2,3) True by (simp add: clipOpAt_target clipRange_step)
    finally show ?thesis .
  next
    case False
    then show ?thesis by (subst clipFor.simps) (simp add: clipRange_empty)
  qed
qed

lemma clipTail_clipFor: "clipTail a p modOp j h = clipFor a p modOp (getNbCigarOps (h ! a)) j h"
proof (induction a p modOp j h rule: clipTail.induct)
  case (1 a p modOp j h)
  show ?case
  proof (cases "j < getNbCigarOps (h ! a)")
    case True
    then show ?thesis using 1
      by (subst clipTail.simps, subst clipFor.simps) simp
  next
    case False
    then show ?thesis by (subst clipTail.simps, subst clipFor.simps) simp
  qed
qed


lemma length_heap_clipStep [simp]:
  "length (heap (clipStep a p modOp rid rn rl js i s)) = length (heap s)"
  by (simp add: clipStep_def Let_def)

lemma clipStep_other [simp]:
  "q \<noteq> p \<Longrightarrow> heap (clipStep a p modOp rid rn rl js i s) ! q = heap s ! q"
  by (simp add: clipStep_def Let_def)

lemma clipLoop_rule:
  assumes "I i s"
    and "\<And>i s. I i s \<Longrightarrow> i < getNbCigarOps (heap s ! a)
           \<Longrightarrow> I (Suc i) (clipStep a p modOp rid rn rl js i s)"
  shows "\<exists>k. I k (clipLoop a p modOp rid rn rl js i s)
           \<and> \<not> k < getNbCigarOps (heap (clipLoop a p modOp rid rn rl js i s) ! a)"
  using assms
proof (induction a p modOp rid rn rl js i s rule: clipLoop.induct)
  case (1 a p modOp rid rn rl js i s)
  show ?case
  proof (cases "i < getNbCigarOps (heap s ! a)")
    case True
    then have "I (Suc i) (clipStep a p modOp rid rn rl js i s)"
      using 1(2,3) by blast
    then have "\<exists>k. I k (clipLoop a p modOp rid rn rl js (Suc i) (clipStep a p modOp rid rn rl js i s))
           \<and> \<not> k < getNbCigarOps (heap (clipLoop a p modOp rid rn rl js (Suc i)
                     (clipStep a p modOp rid rn rl js i s)) ! a)"
      using 1(1) [OF True] 1(3) by blast
    then show ?thesis
      using True by (subst (1 2) clipLoop.simps) simp
  next
    case False
    then show ?thesis using 1(2) by (subst (1 2) clipLoop.simps) auto
  qed
qed

lemma clipRel_clipRange:
  assumes "list_all2 (clipRel modOp) src c"
    and "\<And>k. lo \<le> k \<Longrightarrow> k < hi \<Longrightarrow> k < length src \<Longrightarrow> type_op (src ! k) \<noteq> BAM_CIGAR_REFSKIP_CHAR"
  shows "list_all2 (clipRel modOp) src (clipRange modOp src lo hi c)"
proof -
  have len: "length src = length c"
    using assms(1) by (rule list_all2_lengthD)
  show ?thesis
    unfolding list_all2_conv_all_nth
  proof (intro conjI allI impI)
    show "length src = length (clipRange modOp src lo hi c)" using len by simp
  next
    fix k assume k: "k < length src"
    then have r: "clipRel modOp (src ! k) (c ! k)"
      using assms(1) by (simp add: list_all2_conv_all_nth)
    show "clipRel modOp (src ! k) (clipRange modOp src lo hi c ! k)"
    proof (cases "lo \<le> k \<and> k < hi")
      case True
      then show ?thesis using k len assms(2) [of k] by (simp add: nth_clipRange clipRel_def)
    next
      case False
      then show ?thesis using k len r by (auto simp: nth_clipRange)
    qed
  qed
qed

lemma clipInv_clipFor:
  assumes inv: "clipInv h1 a p modOp i s" and ap: "a \<noteq> p" and p: "p < length h1"
    and lo: "opStart s \<le> lo" and hi: "hi \<le> i"
  shows "clipInv h1 a p modOp i (s\<lparr>heap := clipFor a p modOp hi lo (heap s)\<rparr>)"
proof -
  have ha: "heap s ! a = h1 ! a" using inv ap by (simp add: clipInv_def)
  have pl: "p < length (heap s)" using inv p by (simp add: clipInv_def)
  have tgt: "clipFor a p modOp hi lo (heap s) ! p
               = (heap s ! p)\<lparr>cigar := clipRange modOp (cigar (h1 ! a)) lo hi (cigar (heap s ! p))\<rparr>"
    using clipFor_target [OF ap pl, of modOp hi lo] ha by simp
  have nonskip: "\<And>k. lo \<le> k \<Longrightarrow> k < hi \<Longrightarrow> k < length (cigar (h1 ! a))
                   \<Longrightarrow> type_op (cigar (h1 ! a) ! k) \<noteq> BAM_CIGAR_REFSKIP_CHAR"
    using inv lo hi by (simp add: clipInv_def)
  have rel: "list_all2 (clipRel modOp) (cigar (h1 ! a))
               (clipRange modOp (cigar (h1 ! a)) lo hi (cigar (heap s ! p)))"
    using inv nonskip by (intro clipRel_clipRange) (simp_all add: clipInv_def)
  have fld: "heap s ! p = (h1 ! a)\<lparr>cigar := cigar (heap s ! p)\<rparr>"
    using inv by (simp add: clipInv_def)
  show ?thesis
    unfolding clipInv_def
  proof (intro conjI)
    show "length (heap (s\<lparr>heap := clipFor a p modOp hi lo (heap s)\<rparr>)) = length h1"
      using inv by (simp add: clipInv_def)
    show "\<forall>q. q \<noteq> p \<longrightarrow> heap (s\<lparr>heap := clipFor a p modOp hi lo (heap s)\<rparr>) ! q = h1 ! q"
      using inv by (simp add: clipInv_def)
    show "heap (s\<lparr>heap := clipFor a p modOp hi lo (heap s)\<rparr>) ! p
            = (h1 ! a)\<lparr>cigar := cigar (heap (s\<lparr>heap := clipFor a p modOp hi lo (heap s)\<rparr>) ! p)\<rparr>"
    proof -
      have "(heap s ! p)\<lparr>cigar := clipRange modOp (cigar (h1 ! a)) lo hi (cigar (heap s ! p))\<rparr>
              = (h1 ! a)\<lparr>cigar := clipRange modOp (cigar (h1 ! a)) lo hi (cigar (heap s ! p))\<rparr>"
        by (subst fld) simp
      then show ?thesis using tgt by simp
    qed
    show "list_all2 (clipRel modOp) (cigar (h1 ! a))
            (cigar (heap (s\<lparr>heap := clipFor a p modOp hi lo (heap s)\<rparr>) ! p))"
      using tgt rel by simp
    show "opStart (s\<lparr>heap := clipFor a p modOp hi lo (heap s)\<rparr>) \<le> i"
      using inv by (simp add: clipInv_def)
    show "\<forall>k. opStart (s\<lparr>heap := clipFor a p modOp hi lo (heap s)\<rparr>) \<le> k \<and> k < i
              \<and> k < length (cigar (h1 ! a))
            \<longrightarrow> type_op (cigar (h1 ! a) ! k) \<noteq> BAM_CIGAR_REFSKIP_CHAR"
      using inv by (simp add: clipInv_def)
  qed
qed


lemma clipInv_advance_skip:
  "clipInv h1 a p modOp i s \<Longrightarrow> heap s' = heap s \<Longrightarrow> opStart s' = Suc i
     \<Longrightarrow> clipInv h1 a p modOp (Suc i) s'"
  by (simp add: clipInv_def)

lemma clipInv_advance_other:
  assumes "clipInv h1 a p modOp i s" and "heap s' = heap s" and "opStart s' = opStart s"
    and "type_op (cigar (h1 ! a) ! i) \<noteq> BAM_CIGAR_REFSKIP_CHAR"
  shows "clipInv h1 a p modOp (Suc i) s'"
proof -
  have "\<And>k. opStart s \<le> k \<Longrightarrow> k < Suc i \<Longrightarrow> k < length (cigar (h1 ! a))
          \<Longrightarrow> type_op (cigar (h1 ! a) ! k) \<noteq> BAM_CIGAR_REFSKIP_CHAR"
    using assms(1,4) by (simp add: clipInv_def less_Suc_eq) blast
  then show ?thesis
    using assms(1,2,3) by (simp add: clipInv_def)
qed

lemma clipInv_clipStep:
  assumes inv: "clipInv h1 a p modOp i s" and ap: "a \<noteq> p" and p: "p < length h1"
  shows "clipInv h1 a p modOp (Suc i) (clipStep a p modOp rid rn rl js i s)"
proof -
  have ha: "heap s ! a = h1 ! a" using inv ap by (simp add: clipInv_def)
  let ?op = "cigar (h1 ! a) ! i"
  let ?loc = "\<lparr>ref = \<lparr>index = rid, name = rn, length_ref = rl\<rparr>, start = lEnd s,
               end_intron = lEnd s + length_op ?op - 1\<rparr>"
  consider (good) "type_op ?op = BAM_CIGAR_REFSKIP_CHAR" "getJunction js ?loc"
    | (bad) "type_op ?op = BAM_CIGAR_REFSKIP_CHAR" "\<not> getJunction js ?loc"
    | (other) "type_op ?op \<noteq> BAM_CIGAR_REFSKIP_CHAR"
    by blast
  then show ?thesis
  proof cases
    case good
    then show ?thesis
      using inv ha
      by (intro clipInv_advance_skip [where s = s]) (simp_all add: clipStep_def getCigarOpAt_def Let_def)
  next
    case bad
    let ?lo = "if lastGood s then i else opStart s"
    have lo: "opStart s \<le> ?lo" using inv by (simp add: clipInv_def)
    have mid: "clipInv h1 a p modOp i (s\<lparr>heap := clipFor a p modOp i ?lo (heap s)\<rparr>)"
      using clipInv_clipFor [OF inv ap p lo] by simp
    show ?thesis
      using bad ha
      by (intro clipInv_advance_skip [OF mid]) (simp_all add: clipStep_def getCigarOpAt_def Let_def)
  next
    case other
    then show ?thesis
      using inv ha
      by (intro clipInv_advance_other [where s = s]) (simp_all add: clipStep_def getCigarOpAt_def Let_def)
  qed
qed

lemma clipMSR_Inr:
  "clipMSR mode h a refs js = Inr r \<Longrightarrow> refInRange refs (refId (h ! a))"
  by (simp add: clipMSR_def getReferenceId_def Let_def split: if_splits)

lemma clipMSR_result:
  assumes a: "a < length h" and res: "clipMSR mode h a refs js = Inr (h', p, allBad)"
  shows "p = length h"
    and "length h' = Suc (length h)"
    and "\<forall>q<length h. h' ! q = h ! q"
    and "h' ! p = (h ! a)\<lparr>cigar := cigar (h' ! p)\<rparr>"
    and "list_all2 (clipRel (modOpFor mode)) (cigar (h ! a)) (cigar (h' ! p))"
proof -
  define h1 where "h1 = h @ [h ! a]"
  define m where "m = modOpFor mode"
  define rid where "rid = getReferenceId (h ! a)"
  define rn where "rn = name (refAt refs rid)"
  define rl where "rl = length_ref (refAt refs rid)"
  define s0 where "s0 = \<lparr>heap = h1, lEnd = getPosition (h ! a), rStart = getPosition (h ! a),
                         opStart = 0, lastGood = False, ab = True\<rparr>"
  define s where "s = clipLoop a (length h) m rid rn rl js 0 s0"
  define h2 where "h2 = clipFinish a (length h) m s"
  have in_range: "refInRange refs rid"
    using res clipMSR_Inr unfolding rid_def getReferenceId_def by blast
  have unfolded: "clipMSR mode h a refs js = Inr (h2, length h, ab s)"
    using in_range
    by (simp add: clipMSR_def Let_def make_shared_def h2_def s_def s0_def h1_def m_def rid_def rn_def rl_def)
  then have eqs: "h' = h2" "p = length h" "allBad = ab s"
    using res by simp_all
  have ap: "a \<noteq> length h" and pl: "length h < length h1"
    using a by (simp_all add: h1_def)
  have h1a: "h1 ! a = h ! a"
    using a by (simp add: h1_def nth_append)
  have init: "clipInv h1 a (length h) m 0 s0"
    using a by (simp add: clipInv_def s0_def h1_def nth_append list_all2_refl clipRel_def)
  have "\<exists>k. clipInv h1 a (length h) m k s \<and> \<not> k < getNbCigarOps (heap s ! a)"
    unfolding s_def
    by (rule clipLoop_rule [where I = "clipInv h1 a (length h) m", OF init])
       (rule clipInv_clipStep [OF _ ap pl])
  then obtain k where inv: "clipInv h1 a (length h) m k s" and k: "\<not> k < getNbCigarOps (heap s ! a)"
    by blast
  have "clipInv h1 a (length h) m k (s\<lparr>heap := h2\<rparr>)"
  proof (cases "lastGood s")
    case True
    then show ?thesis using inv by (simp add: h2_def clipFinish_def)
  next
    case False
    have "clipInv h1 a (length h) m k
            (s\<lparr>heap := clipFor a (length h) m (getNbCigarOps (heap s ! a)) (opStart s) (heap s)\<rparr>)"
      using k by (intro clipInv_clipFor [OF inv ap pl]) simp_all
    then show ?thesis using False by (simp add: h2_def clipFinish_def clipTail_clipFor)
  qed
  then have fin: "length h2 = length h1" "\<forall>q. q \<noteq> length h \<longrightarrow> h2 ! q = h1 ! q"
    "h2 ! length h = (h1 ! a)\<lparr>cigar := cigar (h2 ! length h)\<rparr>"
    "list_all2 (clipRel m) (cigar (h1 ! a)) (cigar (h2 ! length h))"
    by (simp_all add: clipInv_def)
  show "p = length h" by (rule eqs)
  show "length h' = Suc (length h)" using fin(1) eqs by (simp add: h1_def)
  show "\<forall>q<length h. h' ! q = h ! q" using fin(2) eqs by (simp add: h1_def nth_append)
  show "h' ! p = (h ! a)\<lparr>cigar := cigar (h' ! p)\<rparr>" using fin(3) eqs h1a by simp
  show "list_all2 (clipRel (modOpFor mode)) (cigar (h ! a)) (cigar (h' ! p))"
    using fin(4) eqs h1a by (simp add: m_def)
qed


section \<open>The clipped copy\<close>

text \<open>
  C6. For every alignment \<open>al\<close> (the object at address \<open>a\<close> of the store) and every
  clip mode, the alignment \<open>clipMSR\<close> returns has the same number of operations as
  \<open>al\<close> and the same length at every operation index, and differs from \<open>al\<close> in
  nothing but its operations. The returned pointer is a new address, and every object
  the store held before the call, \<open>al\<close> among them, is unchanged after it: the result
  is a fresh copy, never an in-place mutation.
\<close>

theorem C6_fresh_copy_same_lengths:
  assumes "a < length h" and "clipMSR clipMode h a refs js = Inr (h', p, allBad)"
  shows "getNbCigarOps (h' ! p) = getNbCigarOps (h ! a)
    \<and> (\<forall>k<getNbCigarOps (h ! a).
          length_op (getCigarOpAt (h' ! p) k) = length_op (getCigarOpAt (h ! a) k))
    \<and> h' ! p = (h ! a)\<lparr>cigar := cigar (h' ! p)\<rparr>
    \<and> p = length h \<and> p \<noteq> a \<and> h' ! a = h ! a \<and> (\<forall>q<length h. h' ! q = h ! q)"
proof -
  note r = clipMSR_result [OF assms]
  have len: "length (cigar (h ! a)) = length (cigar (h' ! p))"
    using r(5) by (rule list_all2_lengthD)
  have "length_op (cigar (h' ! p) ! k) = length_op (cigar (h ! a) ! k)"
    if "k < length (cigar (h ! a))" for k
  proof -
    have "clipRel (modOpFor clipMode) (cigar (h ! a) ! k) (cigar (h' ! p) ! k)"
      using r(5) that by (simp add: list_all2_conv_all_nth)
    then show ?thesis by (auto simp: clipRel_def)
  qed
  then show ?thesis
    using r(1,3,4) len assms(1) by (simp add: getNbCigarOps_def getCigarOpAt_def)
qed

theorem C6_witness:
  "(0::nat) < length [ex_al]
   \<and> clipMSR HARD [ex_al] 0 ex_refs {(0, 1050, 1249)}
       = Inr ([ex_al, ex_al\<lparr>cigar := [\<lparr>type_op = CHR ''M'', length_op = 50\<rparr>,
                \<lparr>type_op = CHR ''N'', length_op = 200\<rparr>, \<lparr>type_op = CHR ''M'', length_op = 30\<rparr>,
                \<lparr>type_op = CHR ''N'', length_op = 500\<rparr>, \<lparr>type_op = CHR ''H'', length_op = 20\<rparr>]\<rparr>],
              1, False)
   \<and> getNbCigarOps ([ex_al, ex_al\<lparr>cigar := [\<lparr>type_op = CHR ''M'', length_op = 50\<rparr>,
                \<lparr>type_op = CHR ''N'', length_op = 200\<rparr>, \<lparr>type_op = CHR ''M'', length_op = 30\<rparr>,
                \<lparr>type_op = CHR ''N'', length_op = 500\<rparr>, \<lparr>type_op = CHR ''H'', length_op = 20\<rparr>]\<rparr>] ! 1)
       = getNbCigarOps ([ex_al] ! 0)"
proof -
  have a: "(0::nat) < length [ex_al]" by simp
  have run: "clipMSR HARD [ex_al] 0 ex_refs {(0, 1050, 1249)}
       = Inr ([ex_al, ex_al\<lparr>cigar := [\<lparr>type_op = CHR ''M'', length_op = 50\<rparr>,
                \<lparr>type_op = CHR ''N'', length_op = 200\<rparr>, \<lparr>type_op = CHR ''M'', length_op = 30\<rparr>,
                \<lparr>type_op = CHR ''N'', length_op = 500\<rparr>, \<lparr>type_op = CHR ''H'', length_op = 20\<rparr>]\<rparr>],
              1, False)"
    by (simp add: engine_eval ex_al_def ex_refs_def)
  show ?thesis
    using a run C6_fresh_copy_same_lengths [OF a run] by blast
qed

text \<open>
  C10. For every alignment and every clip mode, the engine leaves every ReferenceSkip
  as it is: an operation of the input whose kind is ReferenceSkip is the same
  operation, kind and length, at the same index of the output.
\<close>

theorem C10_skips_kept:
  assumes "a < length h" and "clipMSR clipMode h a refs js = Inr (h', p, allBad)"
    and "k < getNbCigarOps (h ! a)"
    and "type_op (getCigarOpAt (h ! a) k) = BAM_CIGAR_REFSKIP_CHAR"
  shows "type_op (getCigarOpAt (h' ! p) k) = BAM_CIGAR_REFSKIP_CHAR
    \<and> getCigarOpAt (h' ! p) k = getCigarOpAt (h ! a) k"
proof -
  have "clipRel (modOpFor clipMode) (cigar (h ! a) ! k) (cigar (h' ! p) ! k)"
    using clipMSR_result(5) [OF assms(1,2)] assms(3)
    by (simp add: list_all2_conv_all_nth getNbCigarOps_def)
  then show ?thesis
    using assms(4) by (auto simp: clipRel_def getCigarOpAt_def)
qed

theorem C10_witness:
  "(0::nat) < length [ex_al]
   \<and> clipMSR SOFT [ex_al] 0 ex_refs {}
       = Inr ([ex_al, ex_al\<lparr>cigar := [\<lparr>type_op = CHR ''S'', length_op = 50\<rparr>,
                \<lparr>type_op = CHR ''N'', length_op = 200\<rparr>, \<lparr>type_op = CHR ''S'', length_op = 30\<rparr>,
                \<lparr>type_op = CHR ''N'', length_op = 500\<rparr>, \<lparr>type_op = CHR ''S'', length_op = 20\<rparr>]\<rparr>],
              1, True)
   \<and> (3::nat) < getNbCigarOps ([ex_al] ! 0)
   \<and> type_op (getCigarOpAt ([ex_al] ! 0) 3) = BAM_CIGAR_REFSKIP_CHAR
   \<and> type_op (getCigarOpAt ([ex_al, ex_al\<lparr>cigar := [\<lparr>type_op = CHR ''S'', length_op = 50\<rparr>,
                \<lparr>type_op = CHR ''N'', length_op = 200\<rparr>, \<lparr>type_op = CHR ''S'', length_op = 30\<rparr>,
                \<lparr>type_op = CHR ''N'', length_op = 500\<rparr>, \<lparr>type_op = CHR ''S'', length_op = 20\<rparr>]\<rparr>] ! 1) 3)
       = BAM_CIGAR_REFSKIP_CHAR"
proof -
  have a: "(0::nat) < length [ex_al]" by simp
  have run: "clipMSR SOFT [ex_al] 0 ex_refs {}
       = Inr ([ex_al, ex_al\<lparr>cigar := [\<lparr>type_op = CHR ''S'', length_op = 50\<rparr>,
                \<lparr>type_op = CHR ''N'', length_op = 200\<rparr>, \<lparr>type_op = CHR ''S'', length_op = 30\<rparr>,
                \<lparr>type_op = CHR ''N'', length_op = 500\<rparr>, \<lparr>type_op = CHR ''S'', length_op = 20\<rparr>]\<rparr>],
              1, True)"
    by (simp add: engine_eval ex_al_def ex_refs_def)
  have k: "(3::nat) < getNbCigarOps ([ex_al] ! 0)"
    by (simp add: getNbCigarOps_def ex_al_def)
  have skip: "type_op (getCigarOpAt ([ex_al] ! 0) 3) = BAM_CIGAR_REFSKIP_CHAR"
    by (simp add: getCigarOpAt_def ex_al_def cigar_chars)
  show ?thesis
    using a run k skip C10_skips_kept [OF a run k skip] by blast
qed

section \<open>The junctions of the walk\<close>

lemma containsLoop_char:
  "containsLoop h a rid rn rl js i c r
     = list_ex (getJunction js) (derivedIntrons rid rn rl c (drop i (cigar (h ! a))))"
proof (induction h a rid rn rl js i c r rule: containsLoop.induct)
  case (1 h a rid rn rl js i c r)
  show ?case
  proof (cases "i < getNbCigarOps (h ! a)")
    case True
    then have d: "drop i (cigar (h ! a)) = cigar (h ! a) ! i # drop (Suc i) (cigar (h ! a))"
      by (simp add: getNbCigarOps_def Cons_nth_drop_Suc)
    show ?thesis
      using True 1
      by (subst containsLoop.simps) (simp add: d getCigarOpAt_def Let_def)
  next
    case False
    then show ?thesis
      by (subst containsLoop.simps) (simp add: getNbCigarOps_def)
  qed
qed

lemma derivedIntrons_prefix:
  "set (derivedIntrons rid rn rl c xs) \<subseteq> set (derivedIntrons rid rn rl c (xs @ ys))"
  by (induction xs arbitrary: c) auto

text \<open>
  Where the walk places its junctions: the junction of the ReferenceSkip at index \<open>i\<close>
  starts at the cursor after the first \<open>i\<close> operations, which the ReferenceSkips among
  them have not moved, and ends at that start plus the length of the skip minus 1.
\<close>

lemma cursorAfter_Nil [simp]: "cursorAfter c [] = c"
  by (simp add: cursorAfter_def)

lemma cursorAfter_Cons:
  "cursorAfter c (op # ops) =
     cursorAfter (if type_op op \<noteq> BAM_CIGAR_REFSKIP_CHAR \<and> opConsumesReference (type_op op)
                  then c + length_op op else c) ops"
  by (simp add: cursorAfter_def add.assoc)

lemma derivedIntrons_append:
  "derivedIntrons rid rn rl c (xs @ ys)
     = derivedIntrons rid rn rl c xs @ derivedIntrons rid rn rl (cursorAfter c xs) ys"
  by (induction xs arbitrary: c) (simp_all add: cursorAfter_Cons)

lemma derived_junction_coordinates:
  "set (derivedIntrons rid rn rl c ops)
     = {\<lparr>ref = \<lparr>index = rid, name = rn, length_ref = rl\<rparr>,
         start = cursorAfter c (take i ops),
         end_intron = cursorAfter c (take i ops) + length_op (ops ! i) - 1\<rparr> | i.
        i < length ops \<and> type_op (ops ! i) = BAM_CIGAR_REFSKIP_CHAR}"
  (is "?L = ?R")
proof (intro set_eqI iffI)
  fix loc
  assume "loc \<in> ?L"
  then show "loc \<in> ?R"
  proof (induction ops arbitrary: c)
    case Nil
    then show ?case by simp
  next
    case (Cons op ops)
    let ?c' = "if type_op op \<noteq> BAM_CIGAR_REFSKIP_CHAR \<and> opConsumesReference (type_op op)
               then c + length_op op else c"
    show ?case
    proof (cases "type_op op = BAM_CIGAR_REFSKIP_CHAR
                  \<and> loc = \<lparr>ref = \<lparr>index = rid, name = rn, length_ref = rl\<rparr>, start = c,
                            end_intron = c + length_op op - 1\<rparr>")
      case True
      then show ?thesis by (intro CollectI exI [of _ 0]) simp
    next
      case False
      then have "loc \<in> set (derivedIntrons rid rn rl ?c' ops)"
        using Cons.prems by (auto split: if_splits)
      then obtain i where i: "i < length ops" "type_op (ops ! i) = BAM_CIGAR_REFSKIP_CHAR"
        and loc: "loc = \<lparr>ref = \<lparr>index = rid, name = rn, length_ref = rl\<rparr>,
                         start = cursorAfter ?c' (take i ops),
                         end_intron = cursorAfter ?c' (take i ops) + length_op (ops ! i) - 1\<rparr>"
        using Cons.IH [of ?c'] by blast
      show ?thesis
        using i loc by (intro CollectI exI [of _ "Suc i"]) (simp add: cursorAfter_Cons)
    qed
  qed
next
  fix loc
  assume "loc \<in> ?R"
  then obtain i where i: "i < length ops" "type_op (ops ! i) = BAM_CIGAR_REFSKIP_CHAR"
    and loc: "loc = \<lparr>ref = \<lparr>index = rid, name = rn, length_ref = rl\<rparr>,
                     start = cursorAfter c (take i ops),
                     end_intron = cursorAfter c (take i ops) + length_op (ops ! i) - 1\<rparr>"
    by blast
  have "ops = take i ops @ ops ! i # drop (Suc i) ops"
    using i(1) by (rule id_take_nth_drop)
  then have "derivedIntrons rid rn rl c ops
               = derivedIntrons rid rn rl c (take i ops)
                 @ derivedIntrons rid rn rl (cursorAfter c (take i ops)) (ops ! i # drop (Suc i) ops)"
    using derivedIntrons_append [of rid rn rl c "take i ops" "ops ! i # drop (Suc i) ops"] by simp
  then show "loc \<in> ?L"
    using i(2) loc by simp
qed

lemma containsJunctionInSystem_char:
  assumes "refInRange refs (getReferenceId (h ! a))"
  shows "containsJunctionInSystem h a refs js
           = Inr (list_ex (getJunction js) (junctionsOf refs (h ! a)), h)"
  using assms
  by (simp add: containsJunctionInSystem_def Let_def containsLoop_char junctionsOf_def)

lemma lEnd_clipStep:
  "lEnd (clipStep a p modOp rid rn rl js i s) =
     (if type_op (getCigarOpAt (heap s ! a) i) = BAM_CIGAR_REFSKIP_CHAR then lEnd s
      else if opConsumesReference (type_op (getCigarOpAt (heap s ! a) i))
           then lEnd s + length_op (getCigarOpAt (heap s ! a) i)
      else lEnd s)"
  by (simp add: clipStep_def Let_def)

lemma ab_clipStep:
  "ab (clipStep a p modOp rid rn rl js i s) =
     (if type_op (getCigarOpAt (heap s ! a) i) = BAM_CIGAR_REFSKIP_CHAR
         \<and> getJunction js \<lparr>ref = \<lparr>index = rid, name = rn, length_ref = rl\<rparr>, start = lEnd s,
               end_intron = lEnd s + length_op (getCigarOpAt (heap s ! a) i) - 1\<rparr>
      then False else ab s)"
  by (simp add: clipStep_def Let_def)

lemma clipLoop_ab:
  assumes "a \<noteq> p"
  shows "ab (clipLoop a p modOp rid rn rl js i s)
     = (ab s \<and> \<not> list_ex (getJunction js)
                   (derivedIntrons rid rn rl (lEnd s) (drop i (cigar (heap s ! a)))))"
  using assms
proof (induction a p modOp rid rn rl js i s rule: clipLoop.induct)
  case (1 a p modOp rid rn rl js i s)
  show ?case
  proof (cases "i < getNbCigarOps (heap s ! a)")
    case True
    then have d: "drop i (cigar (heap s ! a))
                    = cigar (heap s ! a) ! i # drop (Suc i) (cigar (heap s ! a))"
      by (simp add: getNbCigarOps_def Cons_nth_drop_Suc)
    have "ab (clipLoop a p modOp rid rn rl js i s)
            = ab (clipLoop a p modOp rid rn rl js (Suc i) (clipStep a p modOp rid rn rl js i s))"
      using True by (subst clipLoop.simps) simp
    also have "\<dots> = (ab (clipStep a p modOp rid rn rl js i s) \<and>
         \<not> list_ex (getJunction js)
             (derivedIntrons rid rn rl (lEnd (clipStep a p modOp rid rn rl js i s))
                (drop (Suc i) (cigar (heap s ! a)))))"
      using 1(1) [OF True 1(2)] 1(2) by simp
    also have "\<dots> = (ab s \<and> \<not> list_ex (getJunction js)
                   (derivedIntrons rid rn rl (lEnd s) (drop i (cigar (heap s ! a)))))"
      by (auto simp: d lEnd_clipStep ab_clipStep getCigarOpAt_def)
    finally show ?thesis .
  next
    case False
    then show ?thesis
      by (subst clipLoop.simps) (simp add: getNbCigarOps_def)
  qed
qed

lemma clipMSR_returns:
  assumes "refInRange refs (getReferenceId (h ! a))"
  shows "\<exists>h' allBad. clipMSR clipMode h a refs js = Inr (h', length h, allBad)"
  using assms by (simp add: clipMSR_def Let_def make_shared_def)

lemma clipMSR_allBad:
  assumes "a < length h" and "clipMSR clipMode h a refs js = Inr (h', p, allBad)"
  shows "allBad = (\<not> list_ex (getJunction js) (junctionsOf refs (h ! a)))"
proof -
  have in_range: "refInRange refs (getReferenceId (h ! a))"
    using clipMSR_Inr [OF assms(2)] by (simp add: getReferenceId_def)
  have ap: "a \<noteq> length h" using assms(1) by simp
  show ?thesis
    using assms in_range
    by (simp add: clipMSR_def Let_def make_shared_def clipLoop_ab [OF ap] junctionsOf_def nth_append)
qed

lemma multiply_spliced_is_spliced:
  assumes "isMultiplySplicedRead al"
  shows "isSplicedRead al"
proof -
  have "length (filter (\<lambda>op. type_op op = BAM_CIGAR_REFSKIP_CHAR) (cigar al)) \<noteq> 0"
  proof
    assume "length (filter (\<lambda>op. type_op op = BAM_CIGAR_REFSKIP_CHAR) (cigar al)) = 0"
    then have "getNbJunctionsInRead al = 0"
      by (simp add: getNbJunctionsInRead_def)
    then show False
      using assms by (simp add: isMultiplySplicedRead_def)
  qed
  then show ?thesis
    by (auto simp: isSplicedRead_def list_ex_iff filter_empty_conv)
qed


text \<open>The step of the filtering loop returns for every record whose reference id is in range.\<close>

lemma filterStep_returns:
  assumes "refInRange refs (getReferenceId cur)"
  shows "\<exists>st'. filterStep clipMode saveMSRs refs js st cur = Inr st'"
proof -
  have r: "refInRange refs (getReferenceId ([cur] ! 0))" using assms by simp
  obtain h' allBad where "clipMSR clipMode [cur] 0 refs js = Inr (h', length [cur], allBad)"
    using clipMSR_returns [OF r] by blast
  then show ?thesis
    using containsJunctionInSystem_char [OF r, of js]
    by (simp add: filterStep_def Let_def)
qed

section \<open>The containment check\<close>

text \<open>
  C8. For every alignment whose reference id is in range, the containment check returns
  true exactly if one of the junctions its walk derives is in the junction index, so it
  returns false if none is after the whole walk; it returns true as soon as such a
  junction is met, whatever operations follow (if a junction derived from the first \<open>k\<close>
  operations is in the index, the check is true for every continuation \<open>rest\<close> of
  these \<open>k\<close> operations); and the store it returns is the store it was given.
\<close>

theorem C8_containment_check:
  assumes "refInRange refs (getReferenceId (h ! a))"
  shows "containsJunctionInSystem h a refs js
           = Inr (\<exists>loc\<in>set (junctionsOf refs (h ! a)). getJunction js loc, h)
    \<and> (\<forall>k rest.
          (\<exists>loc\<in>set (junctionsOf refs ((h ! a)\<lparr>cigar := take k (cigar (h ! a))\<rparr>)). getJunction js loc)
          \<longrightarrow> containsJunctionInSystem [(h ! a)\<lparr>cigar := take k (cigar (h ! a)) @ rest\<rparr>] 0 refs js
                = Inr (True, [(h ! a)\<lparr>cigar := take k (cigar (h ! a)) @ rest\<rparr>]))"
proof (intro conjI allI impI)
  show "containsJunctionInSystem h a refs js
           = Inr (\<exists>loc\<in>set (junctionsOf refs (h ! a)). getJunction js loc, h)"
    using containsJunctionInSystem_char [OF assms] by (simp add: list_ex_iff)
next
  fix k rest
  let ?al = "(h ! a)\<lparr>cigar := take k (cigar (h ! a)) @ rest\<rparr>"
  assume "\<exists>loc\<in>set (junctionsOf refs ((h ! a)\<lparr>cigar := take k (cigar (h ! a))\<rparr>)). getJunction js loc"
  then have "\<exists>loc\<in>set (junctionsOf refs ?al). getJunction js loc"
    using derivedIntrons_prefix [of "refId (h ! a)" "name (refAt refs (refId (h ! a)))"
        "length_ref (refAt refs (refId (h ! a)))" "position (h ! a)" "take k (cigar (h ! a))" rest]
    by (simp add: junctionsOf_def getReferenceId_def getPosition_def) blast
  moreover have "refInRange refs (getReferenceId ([?al] ! 0))"
    using assms by (simp add: getReferenceId_def)
  ultimately show "containsJunctionInSystem [?al] 0 refs js = Inr (True, [?al])"
    using containsJunctionInSystem_char [of refs "[?al]" 0 js] by (simp add: list_ex_iff)
qed


theorem C8_witness:
  "refInRange ex_refs (getReferenceId ([ex_al] ! 0))
   \<and> containsJunctionInSystem [ex_al] 0 ex_refs {(0, 1050, 1249)} = Inr (True, [ex_al])
   \<and> containsJunctionInSystem [ex_al] 0 ex_refs {(0, 1280, 1779)} = Inr (False, [ex_al])
   \<and> containsJunctionInSystem
        [([ex_al] ! 0)\<lparr>cigar := take 2 (cigar ([ex_al] ! 0)) @ [\<lparr>type_op = CHR ''M'', length_op = 7\<rparr>]\<rparr>]
        0 ex_refs {(0, 1050, 1249)}
       = Inr (True, [([ex_al] ! 0)\<lparr>cigar := take 2 (cigar ([ex_al] ! 0)) @ [\<lparr>type_op = CHR ''M'', length_op = 7\<rparr>]\<rparr>])"
proof -
  have r: "refInRange ex_refs (getReferenceId ([ex_al] ! 0))"
    by (simp add: refInRange_def getReferenceId_def ex_al_def ex_refs_def)
  have j: "\<exists>loc\<in>set (junctionsOf ex_refs (([ex_al] ! 0)\<lparr>cigar := take 2 (cigar ([ex_al] ! 0))\<rparr>)).
             getJunction {(0, 1050, 1249)} loc"
    by (simp add: junctionsOf_def getJunction_def getReferenceId_def getPosition_def refAt_def
        ex_al_def ex_refs_def cigar_chars opConsumesReference_def)
  have j1: "(\<exists>loc\<in>set (junctionsOf ex_refs ([ex_al] ! 0)). getJunction {(0, 1050, 1249)} loc) = True"
    by (simp add: junctionsOf_def getJunction_def getReferenceId_def getPosition_def refAt_def
        ex_al_def ex_refs_def cigar_chars opConsumesReference_def)
  have j2: "(\<exists>loc\<in>set (junctionsOf ex_refs ([ex_al] ! 0)). getJunction {(0, 1280, 1779)} loc) = False"
    by (simp add: junctionsOf_def getJunction_def getReferenceId_def getPosition_def refAt_def
        ex_al_def ex_refs_def cigar_chars opConsumesReference_def)
  note t1 = C8_containment_check [OF r, of "{(0, 1050, 1249)}"]
  note t2 = C8_containment_check [OF r, of "{(0, 1280, 1779)}"]
  from t1 have "containsJunctionInSystem [ex_al] 0 ex_refs {(0, 1050, 1249)} = Inr (True, [ex_al])"
    unfolding j1 by blast
  moreover from t2 have "containsJunctionInSystem [ex_al] 0 ex_refs {(0, 1280, 1779)} = Inr (False, [ex_al])"
    unfolding j2 by blast
  moreover from t1 j have "containsJunctionInSystem
        [([ex_al] ! 0)\<lparr>cigar := take 2 (cigar ([ex_al] ! 0)) @ [\<lparr>type_op = CHR ''M'', length_op = 7\<rparr>]\<rparr>]
        0 ex_refs {(0, 1050, 1249)}
       = Inr (True, [([ex_al] ! 0)\<lparr>cigar := take 2 (cigar ([ex_al] ! 0)) @ [\<lparr>type_op = CHR ''M'', length_op = 7\<rparr>]\<rparr>])"
    by blast
  ultimately show ?thesis using r by blast
qed

section \<open>All junctions untrusted\<close>

text \<open>
  C5. The engine reports \<open>allBad = true\<close> if and only if none of the junctions derived
  during its pass is in the junction index; and when it does, for a multiply-spliced
  alignment in Hard or Soft mode, the step of the filtering loop only counts the record
  as read: the three sinks are as they were.
\<close>

theorem C5_all_bad_discarded:
  assumes "a < length h" and "clipMSR clipMode h a refs js = Inr (h', p, allBad)"
  shows "allBad = (\<forall>loc\<in>set (junctionsOf refs (h ! a)). \<not> getJunction js loc)
    \<and> (allBad \<and> isMultiplySplicedRead (h ! a) \<and> clipMode \<noteq> COMPLETE
        \<longrightarrow> filterStep clipMode saveMSRs refs js st (h ! a) = Inr (st\<lparr>nbReadsIn := nbReadsIn st + 1\<rparr>))"
proof (intro conjI impI)
  show iff: "allBad = (\<forall>loc\<in>set (junctionsOf refs (h ! a)). \<not> getJunction js loc)"
    using clipMSR_allBad [OF assms] by (simp add: list_ex_iff)
  assume c: "allBad \<and> isMultiplySplicedRead (h ! a) \<and> clipMode \<noteq> COMPLETE"
  have "refInRange refs (getReferenceId ([h ! a] ! 0))"
    using clipMSR_Inr [OF assms(2)] by (simp add: getReferenceId_def)
  then obtain h2 ab2 where run: "clipMSR clipMode [h ! a] 0 refs js = Inr (h2, length [h ! a], ab2)"
    using clipMSR_returns by blast
  have "ab2 = (\<not> list_ex (getJunction js) (junctionsOf refs ([h ! a] ! 0)))"
    by (rule clipMSR_allBad [OF _ run]) simp
  then have "ab2" using iff c by (simp add: list_ex_iff)
  then show "filterStep clipMode saveMSRs refs js st (h ! a) = Inr (st\<lparr>nbReadsIn := nbReadsIn st + 1\<rparr>)"
    using c run multiply_spliced_is_spliced [of "h ! a"]
    by (simp add: filterStep_def Let_def)
qed

theorem C5_witness:
  "(0::nat) < length [ex_al]
   \<and> clipMSR HARD [ex_al] 0 ex_refs {}
       = Inr ([ex_al, ex_al\<lparr>cigar := [\<lparr>type_op = CHR ''H'', length_op = 50\<rparr>,
                \<lparr>type_op = CHR ''N'', length_op = 200\<rparr>, \<lparr>type_op = CHR ''H'', length_op = 30\<rparr>,
                \<lparr>type_op = CHR ''N'', length_op = 500\<rparr>, \<lparr>type_op = CHR ''H'', length_op = 20\<rparr>]\<rparr>],
              1, True)
   \<and> isMultiplySplicedRead ([ex_al] ! 0) \<and> HARD \<noteq> COMPLETE
   \<and> filterStep HARD True ex_refs {} ex_st ([ex_al] ! 0) = Inr (ex_st\<lparr>nbReadsIn := nbReadsIn ex_st + 1\<rparr>)"
proof -
  have a: "(0::nat) < length [ex_al]" by simp
  have run: "clipMSR HARD [ex_al] 0 ex_refs {}
       = Inr ([ex_al, ex_al\<lparr>cigar := [\<lparr>type_op = CHR ''H'', length_op = 50\<rparr>,
                \<lparr>type_op = CHR ''N'', length_op = 200\<rparr>, \<lparr>type_op = CHR ''H'', length_op = 30\<rparr>,
                \<lparr>type_op = CHR ''N'', length_op = 500\<rparr>, \<lparr>type_op = CHR ''H'', length_op = 20\<rparr>]\<rparr>],
              1, True)"
    by (simp add: engine_eval ex_al_def ex_refs_def)
  have msr: "isMultiplySplicedRead ([ex_al] ! 0)"
    by (simp add: isMultiplySplicedRead_def getNbJunctionsInRead_def ex_al_def cigar_chars)
  show ?thesis
    using a run msr C5_all_bad_discarded [OF a run, of True ex_st] by simp
qed


section \<open>The routing of the filtering loop\<close>

text \<open>
  C4. For every incoming alignment \<open>cur\<close>: an unspliced alignment is appended to the
  primary sink unchanged. A spliced alignment in Complete mode, or one that is not
  multiply spliced, is appended unchanged if the containment check returns true and
  leaves every sink as it is otherwise. A multiply-spliced alignment in Hard or Soft
  mode goes through \<open>clipMSR\<close>: if \<open>allBad\<close> no sink changes; otherwise the rewritten
  copy is appended to the primary sink and, when \<open>saveMSRs\<close> is set, the rewritten copy
  to \<open>mod_writer\<close> and the original to \<open>unmod\<close>.
\<close>

theorem C4_routing:
  "(\<not> isSplicedRead cur \<longrightarrow>
      filterStep clipMode saveMSRs refs js st cur
        = Inr (st\<lparr>nbReadsIn := nbReadsIn st + 1, writer := writer st @ [cur],
                 nbReadsOut := nbReadsOut st + 1\<rparr>))
   \<and> (isSplicedRead cur \<and> (clipMode = COMPLETE \<or> \<not> isMultiplySplicedRead cur)
        \<and> containsJunctionInSystem [cur] 0 refs js = Inr (found, hc) \<longrightarrow>
      filterStep clipMode saveMSRs refs js st cur
        = Inr (if found
               then st\<lparr>nbReadsIn := nbReadsIn st + 1, writer := writer st @ [cur],
                       nbReadsOut := nbReadsOut st + 1\<rparr>
               else st\<lparr>nbReadsIn := nbReadsIn st + 1\<rparr>))
   \<and> (isSplicedRead cur \<and> isMultiplySplicedRead cur \<and> clipMode \<noteq> COMPLETE
        \<and> clipMSR clipMode [cur] 0 refs js = Inr (h', clipped, allBad) \<longrightarrow>
      filterStep clipMode saveMSRs refs js st cur
        = Inr (if allBad then st\<lparr>nbReadsIn := nbReadsIn st + 1\<rparr>
               else st\<lparr>nbReadsIn := nbReadsIn st + 1,
                       writer := writer st @ [h' ! clipped],
                       mod_writer := (if saveMSRs then mod_writer st @ [h' ! clipped]
                                      else mod_writer st),
                       unmod := (if saveMSRs then unmod st @ [cur] else unmod st),
                       nbReadsModifiedOut := nbReadsModifiedOut st + 1,
                       nbReadsOut := nbReadsOut st + 1\<rparr>))"
proof (intro conjI impI)
  assume "\<not> isSplicedRead cur"
  then show "filterStep clipMode saveMSRs refs js st cur
        = Inr (st\<lparr>nbReadsIn := nbReadsIn st + 1, writer := writer st @ [cur],
                 nbReadsOut := nbReadsOut st + 1\<rparr>)"
    by (simp add: filterStep_def)
next
  assume c: "isSplicedRead cur \<and> (clipMode = COMPLETE \<or> \<not> isMultiplySplicedRead cur)
        \<and> containsJunctionInSystem [cur] 0 refs js = Inr (found, hc)"
  then have "hc = [cur]"
    by (auto simp: containsJunctionInSystem_def Let_def split: if_splits)
  then show "filterStep clipMode saveMSRs refs js st cur
        = Inr (if found
               then st\<lparr>nbReadsIn := nbReadsIn st + 1, writer := writer st @ [cur],
                       nbReadsOut := nbReadsOut st + 1\<rparr>
               else st\<lparr>nbReadsIn := nbReadsIn st + 1\<rparr>)"
    using c by (auto simp: filterStep_def)
next
  assume c: "isSplicedRead cur \<and> isMultiplySplicedRead cur \<and> clipMode \<noteq> COMPLETE
        \<and> clipMSR clipMode [cur] 0 refs js = Inr (h', clipped, allBad)"
  then have run: "clipMSR clipMode [cur] 0 refs js = Inr (h', clipped, allBad)" by simp
  have "h' ! 0 = cur"
    using clipMSR_result(3) [OF _ run] by simp
  then show "filterStep clipMode saveMSRs refs js st cur
        = Inr (if allBad then st\<lparr>nbReadsIn := nbReadsIn st + 1\<rparr>
               else st\<lparr>nbReadsIn := nbReadsIn st + 1,
                       writer := writer st @ [h' ! clipped],
                       mod_writer := (if saveMSRs then mod_writer st @ [h' ! clipped]
                                      else mod_writer st),
                       unmod := (if saveMSRs then unmod st @ [cur] else unmod st),
                       nbReadsModifiedOut := nbReadsModifiedOut st + 1,
                       nbReadsOut := nbReadsOut st + 1\<rparr>)"
    using c by (simp add: filterStep_def)
qed

theorem C4_witness:
  "\<not> isSplicedRead ex_unspliced
   \<and> filterStep HARD True ex_refs {(0, 1050, 1249)} ex_st ex_unspliced
       = Inr (ex_st\<lparr>nbReadsIn := 1, writer := [ex_unspliced], nbReadsOut := 1\<rparr>)
   \<and> isSplicedRead ex_single \<and> \<not> isMultiplySplicedRead ex_single
   \<and> containsJunctionInSystem [ex_single] 0 ex_refs {(0, 1050, 1249)} = Inr (True, [ex_single])
   \<and> filterStep HARD True ex_refs {(0, 1050, 1249)} ex_st ex_single
       = Inr (ex_st\<lparr>nbReadsIn := 1, writer := [ex_single], nbReadsOut := 1\<rparr>)
   \<and> isSplicedRead ex_al \<and> isMultiplySplicedRead ex_al \<and> HARD \<noteq> COMPLETE
   \<and> clipMSR HARD [ex_al] 0 ex_refs {(0, 1050, 1249)} = Inr ([ex_al, ex_clipped], 1, False)
   \<and> filterStep HARD True ex_refs {(0, 1050, 1249)} ex_st ex_al
       = Inr (ex_st\<lparr>nbReadsIn := 1, writer := [ex_clipped], mod_writer := [ex_clipped],
                unmod := [ex_al], nbReadsModifiedOut := 1, nbReadsOut := 1\<rparr>)"
proof -
  have u: "\<not> isSplicedRead ex_unspliced"
    by (simp add: classify_eval ex_unspliced_def)
  have s1: "isSplicedRead ex_single" and s2: "\<not> isMultiplySplicedRead ex_single"
    by (simp_all add: classify_eval ex_single_def)
  have s3: "containsJunctionInSystem [ex_single] 0 ex_refs {(0, 1050, 1249)} = Inr (True, [ex_single])"
    by (simp add: contains_eval ex_single_def ex_al_def ex_refs_def)
  have m1: "isSplicedRead ex_al" and m2: "isMultiplySplicedRead ex_al"
    by (simp_all add: classify_eval ex_al_def)
  have m3: "clipMSR HARD [ex_al] 0 ex_refs {(0, 1050, 1249)} = Inr ([ex_al, ex_clipped], 1, False)"
    by (simp add: engine_eval ex_clipped_def ex_al_def ex_refs_def)
  note r1 = C4_routing [of ex_unspliced HARD True ex_refs "{(0, 1050, 1249)}" ex_st]
  note r2 = C4_routing [of ex_single HARD True ex_refs "{(0, 1050, 1249)}" ex_st True "[ex_single]"]
  note r3 = C4_routing [of ex_al HARD True ex_refs "{(0, 1050, 1249)}" ex_st _ _
                "[ex_al, ex_clipped]" 1 False]
  show ?thesis
    using u s1 s2 s3 m1 m2 m3 r1 r2 r3 by (simp add: ex_st_def)
qed


section \<open>The ranges the engine rewrites\<close>

text \<open>
  C3 as stated fails: the range rewritten at an untrusted junction does not include the
  ReferenceSkip itself. On the example with an empty junction index the loop reaches
  index 1 in the state \<open>ex_state\<close> (\<open>opStart = 0\<close>); the junction of the skip at
  index 1 is not in the index, and after the step the operation at index 1 of the copy
  is still \<open>200N\<close>, not \<open>200H\<close>. The whole run leaves both skips in place.
\<close>

theorem C3_counterexample:
  "clipStep 0 1 BAM_CIGAR_HARDCLIP_CHAR 0 ''chr1'' 100000 {} 0
       \<lparr>heap = [ex_al, ex_al], lEnd = 1000, rStart = 1000, opStart = 0, lastGood = False, ab = True\<rparr>
     = ex_state
   \<and> type_op (getCigarOpAt (heap ex_state ! 0) 1) = BAM_CIGAR_REFSKIP_CHAR
   \<and> \<not> getJunction {} \<lparr>ref = \<lparr>index = 0, name = ''chr1'', length_ref = 100000\<rparr>,
                          start = lEnd ex_state, end_intron = lEnd ex_state + 200 - 1\<rparr>
   \<and> getCigarOpAt (heap (clipStep 0 1 BAM_CIGAR_HARDCLIP_CHAR 0 ''chr1'' 100000 {} 1 ex_state) ! 1) 1
       = \<lparr>type_op = CHR ''N'', length_op = 200\<rparr>
   \<and> getCigarOpAt (heap (clipStep 0 1 BAM_CIGAR_HARDCLIP_CHAR 0 ''chr1'' 100000 {} 1 ex_state) ! 1) 1
       \<noteq> \<lparr>type_op = BAM_CIGAR_HARDCLIP_CHAR, length_op = 200\<rparr>
   \<and> clipMSR HARD [ex_al] 0 ex_refs {} = Inr ([ex_al, ex_all_clipped], 1, True)
   \<and> type_op (getCigarOpAt ex_all_clipped 1) \<noteq> modOpFor HARD"
  by (simp add: engine_eval ex_state_def ex_all_clipped_def ex_al_def ex_refs_def)

text \<open>The state of the loop of \<open>clipMSR\<close> in the terms of the alignment and the index.\<close>

lemma cursorAfter_take_Suc:
  assumes "i < length ops"
  shows "cursorAfter c (take (Suc i) ops) =
     (if type_op (ops ! i) \<noteq> BAM_CIGAR_REFSKIP_CHAR \<and> opConsumesReference (type_op (ops ! i))
      then cursorAfter c (take i ops) + length_op (ops ! i) else cursorAfter c (take i ops))"
  using assms by (simp add: take_Suc_conv_app_nth cursorAfter_def)

lemma clippedBefore_Suc:
  "clippedBefore js refs al (Suc i) k =
     (clippedBefore js refs al i k
      \<or> (type_op (cigar al ! i) = BAM_CIGAR_REFSKIP_CHAR \<and> \<not> skipTrusted js refs al i
          \<and> (if prevTrusted js refs al i then i else regionStartAt (cigar al) i) \<le> k \<and> k < i))"
  by (simp add: clippedBefore_def)

lemma regionStartAt_Suc:
  "regionStartAt ops (Suc i) =
     (if type_op (ops ! i) = BAM_CIGAR_REFSKIP_CHAR then Suc i else regionStartAt ops i)"
  by (simp add: regionStartAt_def)

lemma prevTrusted_Suc:
  "prevTrusted js refs al (Suc i) =
     (if type_op (cigar al ! i) = BAM_CIGAR_REFSKIP_CHAR then skipTrusted js refs al i
      else prevTrusted js refs al i)"
  by (simp add: prevTrusted_def)

lemma runInv_clipStep:
  assumes inv: "clipInv h1 a p modOp i s" and run: "runInv modOp js refs al p i s"
    and ap: "a \<noteq> p" and p: "p < length h1" and i: "i < length (cigar al)"
    and al: "h1 ! a = al"
    and rid: "rid = getReferenceId al" and rn: "rn = name (refAt refs rid)"
    and rl: "rl = length_ref (refAt refs rid)"
  shows "runInv modOp js refs al p (Suc i) (clipStep a p modOp rid rn rl js i s)"
proof -
  have ha: "heap s ! a = al" using inv ap al by (simp add: clipInv_def)
  have pl: "p < length (heap s)" using inv p by (simp add: clipInv_def)
  have len: "length (cigar (heap s ! p)) = length (cigar al)"
    using inv al by (auto simp: clipInv_def dest: list_all2_lengthD)
  let ?op = "cigar al ! i"
  have loc: "\<lparr>ref = \<lparr>index = rid, name = rn, length_ref = rl\<rparr>, start = lEnd s,
              end_intron = lEnd s + length_op ?op - 1\<rparr> = junctionAt refs al i"
    using run by (simp add: junctionAt_def runInv_def rid rn rl)
  note c = run [unfolded runInv_def]
  consider (good) "type_op ?op = BAM_CIGAR_REFSKIP_CHAR" "skipTrusted js refs al i"
    | (bad) "type_op ?op = BAM_CIGAR_REFSKIP_CHAR" "\<not> skipTrusted js refs al i"
    | (other) "type_op ?op \<noteq> BAM_CIGAR_REFSKIP_CHAR"
    by blast
  then show ?thesis
  proof cases
    case good
    then have g: "getJunction js \<lparr>ref = \<lparr>index = rid, name = rn, length_ref = rl\<rparr>, start = lEnd s,
              end_intron = lEnd s + length_op ?op - 1\<rparr>"
      using loc by (simp add: skipTrusted_def)
    show ?thesis
      using good g c i ha
      by (simp add: runInv_def clipStep_def getCigarOpAt_def Let_def cursorAfter_take_Suc
          clippedBefore_Suc regionStartAt_Suc prevTrusted_Suc)
  next
    case bad
    then have g: "\<not> getJunction js \<lparr>ref = \<lparr>index = rid, name = rn, length_ref = rl\<rparr>, start = lEnd s,
              end_intron = lEnd s + length_op ?op - 1\<rparr>"
      using loc by (simp add: skipTrusted_def)
    let ?lo = "if lastGood s then i else opStart s"
    have hp: "heap (clipStep a p modOp rid rn rl js i s) ! p
                = (heap s ! p)\<lparr>cigar := clipRange modOp (cigar al) ?lo i (cigar (heap s ! p))\<rparr>"
      using bad g ha clipFor_target [OF ap pl, of modOp i ?lo]
      by (cases "lastGood s") (simp_all add: clipStep_def getCigarOpAt_def Let_def)
    have rest: "lEnd (clipStep a p modOp rid rn rl js i s) = lEnd s"
      "opStart (clipStep a p modOp rid rn rl js i s) = Suc i"
      "lastGood (clipStep a p modOp rid rn rl js i s) = False"
      using bad g ha by (simp_all add: clipStep_def getCigarOpAt_def Let_def)
    have lo: "?lo = (if prevTrusted js refs al i then i else regionStartAt (cigar al) i)"
      using c by simp
    show ?thesis
      unfolding runInv_def
    proof (intro conjI allI impI)
      show "Suc i \<le> length (cigar al)" using i by simp
      show "lEnd (clipStep a p modOp rid rn rl js i s)
              = cursorAfter (getPosition al) (take (Suc i) (cigar al))"
        using rest(1) c bad(1) i by (simp add: cursorAfter_take_Suc)
      show "opStart (clipStep a p modOp rid rn rl js i s) = regionStartAt (cigar al) (Suc i)"
        using rest(2) bad(1) by (simp add: regionStartAt_Suc)
      show "lastGood (clipStep a p modOp rid rn rl js i s) = prevTrusted js refs al (Suc i)"
        using rest(3) bad by (simp add: prevTrusted_Suc)
    next
      fix k assume k: "k < length (cigar al)"
      have "cigar (heap s ! p) ! k =
           (if clippedBefore js refs al i k
            then \<lparr>type_op = modOp, length_op = length_op (cigar al ! k)\<rparr>
            else cigar al ! k)"
        using c k by blast
      then show "cigar (heap (clipStep a p modOp rid rn rl js i s) ! p) ! k =
           (if clippedBefore js refs al (Suc i) k
            then \<lparr>type_op = modOp, length_op = length_op (cigar al ! k)\<rparr>
            else cigar al ! k)"
        using k len bad lo by (simp add: hp nth_clipRange clippedBefore_Suc)
    qed
  next
    case other
    show ?thesis
      using other c i ha
      by (simp add: runInv_def clipStep_def getCigarOpAt_def Let_def cursorAfter_take_Suc
          clippedBefore_Suc regionStartAt_Suc prevTrusted_Suc)
  qed
qed


lemma clipMSR_run:
  assumes a: "a < length h" and res: "clipMSR mode h a refs js = Inr (h', p, allBad)"
    and k: "k < length (cigar (h ! a))"
  shows "cigar (h' ! p) ! k =
     (if clippedAt js refs (h ! a) k
      then \<lparr>type_op = modOpFor mode, length_op = length_op (cigar (h ! a) ! k)\<rparr>
      else cigar (h ! a) ! k)"
proof -
  define al where "al = h ! a"
  define h1 where "h1 = h @ [al]"
  define m where "m = modOpFor mode"
  define rid where "rid = getReferenceId al"
  define rn where "rn = name (refAt refs rid)"
  define rl where "rl = length_ref (refAt refs rid)"
  define s0 where "s0 = \<lparr>heap = h1, lEnd = getPosition al, rStart = getPosition al,
                         opStart = 0, lastGood = False, ab = True\<rparr>"
  define s where "s = clipLoop a (length h) m rid rn rl js 0 s0"
  define h2 where "h2 = clipFinish a (length h) m s"
  define n where "n = length (cigar al)"
  have in_range: "refInRange refs rid"
    using clipMSR_Inr [OF res] by (simp add: rid_def al_def getReferenceId_def)
  have "clipMSR mode h a refs js = Inr (h2, length h, ab s)"
    using in_range
    by (simp add: clipMSR_def Let_def make_shared_def h2_def s_def s0_def h1_def m_def rid_def
        rn_def rl_def al_def)
  then have eqs: "h' = h2" "p = length h"
    using res by simp_all
  have ap: "a \<noteq> length h" and pl: "length h < length h1"
    using a by (simp_all add: h1_def)
  have h1a: "h1 ! a = al"
    using a by (simp add: h1_def al_def nth_append)
  have init1: "clipInv h1 a (length h) m 0 s0"
    using a by (simp add: clipInv_def s0_def h1_def al_def nth_append list_all2_refl clipRel_def)
  have init2: "runInv m js refs al (length h) 0 s0"
    by (simp add: runInv_def s0_def h1_def regionStartAt_def prevTrusted_def clippedBefore_def)
  let ?I = "\<lambda>i s. clipInv h1 a (length h) m i s \<and> runInv m js refs al (length h) i s"
  have "\<exists>j. ?I j s \<and> \<not> j < getNbCigarOps (heap s ! a)"
    unfolding s_def
  proof (rule clipLoop_rule [where I = ?I])
    show "?I 0 s0" using init1 init2 by simp
  next
    fix i s
    assume I: "?I i s" and i: "i < getNbCigarOps (heap s ! a)"
    have "heap s ! a = al" using I ap h1a by (simp add: clipInv_def)
    then have i': "i < length (cigar al)" using i by (simp add: getNbCigarOps_def)
    show "?I (Suc i) (clipStep a (length h) m rid rn rl js i s)"
      using I clipInv_clipStep [OF _ ap pl, of m i s rid rn rl js]
        runInv_clipStep [OF _ _ ap pl i' h1a rid_def rn_def rl_def, of m s js]
      by blast
  qed
  then obtain j where inv: "clipInv h1 a (length h) m j s"
    and run: "runInv m js refs al (length h) j s"
    and j: "\<not> j < getNbCigarOps (heap s ! a)"
    by blast
  have sa: "heap s ! a = al" using inv ap h1a by (simp add: clipInv_def)
  have jn: "j = n" using j run sa by (simp add: runInv_def getNbCigarOps_def n_def)
  have sp: "length h < length (heap s)" using inv pl by (simp add: clipInv_def)
  have len: "length (cigar (heap s ! length h)) = n"
    using inv h1a by (auto simp: clipInv_def n_def dest: list_all2_lengthD)
  have kn: "k < n" using k by (simp add: n_def al_def)
  note c = run [unfolded runInv_def jn]
  have before: "cigar (heap s ! length h) ! k =
           (if clippedBefore js refs al n k
            then \<lparr>type_op = m, length_op = length_op (cigar al ! k)\<rparr>
            else cigar al ! k)"
    using c kn by (simp add: n_def)
  have "cigar (h2 ! length h) ! k =
     (if clippedAt js refs al k
      then \<lparr>type_op = m, length_op = length_op (cigar al ! k)\<rparr>
      else cigar al ! k)"
  proof (cases "lastGood s")
    case True
    then have "prevTrusted js refs al n" using c by simp
    then show ?thesis
      using True before by (simp add: h2_def clipFinish_def clippedAt_def n_def)
  next
    case False
    then have nt: "\<not> prevTrusted js refs al n" using c by simp
    have os: "opStart s = regionStartAt (cigar al) n" using c by simp
    have "h2 ! length h = (heap s ! length h)
            \<lparr>cigar := clipRange m (cigar al) (opStart s) n (cigar (heap s ! length h))\<rparr>"
      using False clipFor_target [OF ap sp, of m n "opStart s"] sa
      by (simp add: h2_def clipFinish_def clipTail_clipFor getNbCigarOps_def n_def)
    then show ?thesis
      using kn len before nt os
      by (simp add: nth_clipRange clippedAt_def n_def [symmetric])
  qed
  then show ?thesis
    using eqs by (simp add: al_def m_def)
qed

lemma prevSkip_numeral:
  "prevSkip ops (numeral v) =
     (if type_op (ops ! pred_numeral v) = BAM_CIGAR_REFSKIP_CHAR then Some (pred_numeral v)
      else prevSkip ops (pred_numeral v))"
  by (simp add: numeral_eq_Suc)

lemmas run_eval =
  clippedAt_def clippedBefore_def prevTrusted_def regionStartAt_def skipTrusted_def
  junctionAt_def cursorAfter_def getJunction_def getReferenceId_def getPosition_def refAt_def
  opConsumesReference_def cigar_chars prevSkip_numeral upt_rec

text \<open>
  C3, amended. In a pass of the engine, for every ReferenceSkip at an index \<open>i\<close> whose
  derived junction is not in the junction index, every operation in the half-open range
  from regionStart (the index after the ReferenceSkip before \<open>i\<close>, or 0) up to, but not
  including, \<open>i\<close> has its kind replaced by the configured clip kind and keeps its
  length; when the junction evaluated just before was trusted the range starts at \<open>i\<close>
  and is empty, so nothing is rewritten for that skip. After the pass, if the last
  junction evaluated was not trusted, or none was evaluated, the operations from
  regionStart to the last one are rewritten in the same way. Every other operation of
  the output, each ReferenceSkip among them, is the operation of the input. The theorem
  is about the whole run: \<open>clippedAt\<close> is stated on the input alignment and the index.
\<close>

theorem C3_rewritten_ranges:
  assumes "a < length h" and "clipMSR clipMode h a refs js = Inr (h', p, allBad)"
    and "k < getNbCigarOps (h ! a)"
  shows "getCigarOpAt (h' ! p) k =
     (if clippedAt js refs (h ! a) k
      then \<lparr>type_op = modOpFor clipMode, length_op = length_op (getCigarOpAt (h ! a) k)\<rparr>
      else getCigarOpAt (h ! a) k)"
  using clipMSR_run [OF assms(1,2), of k] assms(3)
  by (simp add: getCigarOpAt_def getNbCigarOps_def)

theorem C3_rewritten_ranges_witness:
  "(0::nat) < length [ex_al]
   \<and> clipMSR HARD [ex_al] 0 ex_refs {(0, 1050, 1249)} = Inr ([ex_al, ex_clipped], 1, False)
   \<and> (2::nat) < getNbCigarOps ([ex_al] ! 0) \<and> (4::nat) < getNbCigarOps ([ex_al] ! 0)
   \<and> skipTrusted {(0, 1050, 1249)} ex_refs ([ex_al] ! 0) 1
   \<and> \<not> skipTrusted {(0, 1050, 1249)} ex_refs ([ex_al] ! 0) 3
   \<and> prevTrusted {(0, 1050, 1249)} ex_refs ([ex_al] ! 0) 3
   \<and> \<not> clippedAt {(0, 1050, 1249)} ex_refs ([ex_al] ! 0) 2
   \<and> getCigarOpAt ([ex_al, ex_clipped] ! 1) 2 = \<lparr>type_op = CHR ''M'', length_op = 30\<rparr>
   \<and> clippedAt {(0, 1050, 1249)} ex_refs ([ex_al] ! 0) 4
   \<and> getCigarOpAt ([ex_al, ex_clipped] ! 1) 4 = \<lparr>type_op = modOpFor HARD, length_op = 20\<rparr>
   \<and> clipMSR HARD [ex_al] 0 ex_refs {} = Inr ([ex_al, ex_all_clipped], 1, True)
   \<and> \<not> prevTrusted {} ex_refs ([ex_al] ! 0) 3
   \<and> regionStartAt (cigar ([ex_al] ! 0)) 3 = 2
   \<and> clippedAt {} ex_refs ([ex_al] ! 0) 2
   \<and> getCigarOpAt ([ex_al, ex_all_clipped] ! 1) 2 = \<lparr>type_op = modOpFor HARD, length_op = 30\<rparr>"
proof -
  have a: "(0::nat) < length [ex_al]" by simp
  have run1: "clipMSR HARD [ex_al] 0 ex_refs {(0, 1050, 1249)} = Inr ([ex_al, ex_clipped], 1, False)"
    by (simp add: engine_eval ex_clipped_def ex_al_def ex_refs_def)
  have run0: "clipMSR HARD [ex_al] 0 ex_refs {} = Inr ([ex_al, ex_all_clipped], 1, True)"
    by (simp add: engine_eval ex_all_clipped_def ex_al_def ex_refs_def)
  have k2: "(2::nat) < getNbCigarOps ([ex_al] ! 0)" and k4: "(4::nat) < getNbCigarOps ([ex_al] ! 0)"
    by (simp_all add: getNbCigarOps_def ex_al_def)
  have t1: "skipTrusted {(0, 1050, 1249)} ex_refs ([ex_al] ! 0) 1"
    and t3: "\<not> skipTrusted {(0, 1050, 1249)} ex_refs ([ex_al] ! 0) 3"
    and p3: "prevTrusted {(0, 1050, 1249)} ex_refs ([ex_al] ! 0) 3"
    and q3: "\<not> prevTrusted {} ex_refs ([ex_al] ! 0) 3"
    and r3: "regionStartAt (cigar ([ex_al] ! 0)) 3 = 2"
    by (simp_all add: run_eval ex_al_def ex_refs_def)
  have c2: "\<not> clippedAt {(0, 1050, 1249)} ex_refs ([ex_al] ! 0) 2"
    and c4: "clippedAt {(0, 1050, 1249)} ex_refs ([ex_al] ! 0) 4"
    and d2: "clippedAt {} ex_refs ([ex_al] ! 0) 2"
    by (simp_all add: run_eval ex_al_def ex_refs_def)
  have v: "getCigarOpAt ([ex_al] ! 0) 2 = \<lparr>type_op = CHR ''M'', length_op = 30\<rparr>"
    "length_op (getCigarOpAt ([ex_al] ! 0) 4) = 20"
    by (simp_all add: getCigarOpAt_def ex_al_def)
  show ?thesis
    using a run1 run0 k2 k4 t1 t3 p3 q3 r3 c2 c4 d2 v
      C3_rewritten_ranges [OF a run1 k2] C3_rewritten_ranges [OF a run1 k4]
      C3_rewritten_ranges [OF a run0 k2]
    by simp
qed

section \<open>The example of the spec\<close>

text \<open>
  C1 as stated fails. With the junction of the first skip (1050 to 1249) in the index
  and no other junction in it, Hard-clip mode returns the kinds M N M N H: the 30M
  between the trusted and the untrusted skip and the 500N itself are kept, and only the
  trailing 20M becomes 20H. The index of the example holds neither the interval of the
  second skip (1280 to 1779) nor the interval 1080 to 1579.
\<close>

theorem C1_counterexample:
  "(0, 1050, 1249) \<in> {(0 :: int32, 1050 :: int32, 1249 :: int32)}
   \<and> (0, 1280, 1779) \<notin> {(0 :: int32, 1050 :: int32, 1249 :: int32)}
   \<and> (0, 1080, 1579) \<notin> {(0 :: int32, 1050 :: int32, 1249 :: int32)}
   \<and> clipMSR HARD [ex_al] 0 ex_refs {(0, 1050, 1249)} = Inr ([ex_al, ex_clipped], 1, False)
   \<and> cigar ex_clipped \<noteq> [\<lparr>type_op = CHR ''M'', length_op = 50\<rparr>, \<lparr>type_op = CHR ''N'', length_op = 200\<rparr>,
         \<lparr>type_op = CHR ''H'', length_op = 30\<rparr>, \<lparr>type_op = CHR ''H'', length_op = 500\<rparr>,
         \<lparr>type_op = CHR ''H'', length_op = 20\<rparr>]
   \<and> map type_op (cigar ex_clipped) = ''MNMNH''"
  by (simp add: engine_eval ex_clipped_def ex_al_def ex_refs_def)

text \<open>
  C1, amended. For the alignment with the operations 50M 200N 30M 500N 20M at position
  \<open>pos\<close>, where the junction of the first skip (\<open>pos + 50\<close> to \<open>pos + 249\<close>) is in the
  junction index and the index holds neither the interval of the second skip
  (\<open>pos + 280\<close> to \<open>pos + 779\<close>) nor the interval at which the engine looks that skip
  up (\<open>pos + 80\<close> to \<open>pos + 579\<close>), \<open>clipMSR\<close> in Hard-clip mode returns a new copy
  with the operations 50M 200N 30M 500N 20H, every length unchanged, and
  \<open>allBad = false\<close>.
\<close>

theorem C1_example_hard_clip:
  assumes "a < length h"
    and "cigar (h ! a) = [\<lparr>type_op = CHR ''M'', length_op = 50\<rparr>, \<lparr>type_op = CHR ''N'', length_op = 200\<rparr>,
           \<lparr>type_op = CHR ''M'', length_op = 30\<rparr>, \<lparr>type_op = CHR ''N'', length_op = 500\<rparr>,
           \<lparr>type_op = CHR ''M'', length_op = 20\<rparr>]"
    and "refInRange refs (getReferenceId (h ! a))"
    and "(getReferenceId (h ! a), getPosition (h ! a) + 50, getPosition (h ! a) + 249) \<in> js"
    and "(getReferenceId (h ! a), getPosition (h ! a) + 280, getPosition (h ! a) + 779) \<notin> js"
    and "(getReferenceId (h ! a), getPosition (h ! a) + 80, getPosition (h ! a) + 579) \<notin> js"
  shows "clipMSR HARD h a refs js
     = Inr (h @ [(h ! a)\<lparr>cigar := [\<lparr>type_op = CHR ''M'', length_op = 50\<rparr>,
                \<lparr>type_op = CHR ''N'', length_op = 200\<rparr>, \<lparr>type_op = CHR ''M'', length_op = 30\<rparr>,
                \<lparr>type_op = CHR ''N'', length_op = 500\<rparr>, \<lparr>type_op = CHR ''H'', length_op = 20\<rparr>]\<rparr>],
            length h, False)"
proof -
  have j1: "(refId (h ! a), 50 + position (h ! a), 249 + position (h ! a)) \<in> js"
    using assms(4) by (simp add: getReferenceId_def getPosition_def add.commute)
  have j2: "(refId (h ! a), 80 + position (h ! a), 579 + position (h ! a)) \<notin> js"
    using assms(6) by (simp add: getReferenceId_def getPosition_def add.commute)
  show ?thesis
    using assms(1,2,3) j1 j2
    by (simp add: engine_eval nth_append add.commute)
qed

theorem C1_witness:
  "(0::nat) < length [ex_al]
   \<and> cigar ([ex_al] ! 0) = [\<lparr>type_op = CHR ''M'', length_op = 50\<rparr>, \<lparr>type_op = CHR ''N'', length_op = 200\<rparr>,
           \<lparr>type_op = CHR ''M'', length_op = 30\<rparr>, \<lparr>type_op = CHR ''N'', length_op = 500\<rparr>,
           \<lparr>type_op = CHR ''M'', length_op = 20\<rparr>]
   \<and> refInRange ex_refs (getReferenceId ([ex_al] ! 0))
   \<and> (getReferenceId ([ex_al] ! 0), getPosition ([ex_al] ! 0) + 50, getPosition ([ex_al] ! 0) + 249)
        \<in> {(0, 1050, 1249)}
   \<and> (getReferenceId ([ex_al] ! 0), getPosition ([ex_al] ! 0) + 280, getPosition ([ex_al] ! 0) + 779)
        \<notin> {(0, 1050, 1249)}
   \<and> (getReferenceId ([ex_al] ! 0), getPosition ([ex_al] ! 0) + 80, getPosition ([ex_al] ! 0) + 579)
        \<notin> {(0, 1050, 1249)}
   \<and> clipMSR HARD [ex_al] 0 ex_refs {(0, 1050, 1249)}
       = Inr ([ex_al] @ [([ex_al] ! 0)\<lparr>cigar := [\<lparr>type_op = CHR ''M'', length_op = 50\<rparr>,
                \<lparr>type_op = CHR ''N'', length_op = 200\<rparr>, \<lparr>type_op = CHR ''M'', length_op = 30\<rparr>,
                \<lparr>type_op = CHR ''N'', length_op = 500\<rparr>, \<lparr>type_op = CHR ''H'', length_op = 20\<rparr>]\<rparr>],
              length [ex_al], False)"
proof -
  have h1: "(0::nat) < length [ex_al]" by simp
  have h2: "cigar ([ex_al] ! 0) = [\<lparr>type_op = CHR ''M'', length_op = 50\<rparr>, \<lparr>type_op = CHR ''N'', length_op = 200\<rparr>,
           \<lparr>type_op = CHR ''M'', length_op = 30\<rparr>, \<lparr>type_op = CHR ''N'', length_op = 500\<rparr>,
           \<lparr>type_op = CHR ''M'', length_op = 20\<rparr>]"
    by (simp add: ex_al_def)
  have h3: "refInRange ex_refs (getReferenceId ([ex_al] ! 0))"
    by (simp add: refInRange_def getReferenceId_def ex_al_def ex_refs_def)
  have h4: "(getReferenceId ([ex_al] ! 0), getPosition ([ex_al] ! 0) + 50, getPosition ([ex_al] ! 0) + 249)
        \<in> {(0, 1050, 1249)}"
    by (simp add: getReferenceId_def getPosition_def ex_al_def)
  have h5: "(getReferenceId ([ex_al] ! 0), getPosition ([ex_al] ! 0) + 280, getPosition ([ex_al] ! 0) + 779)
        \<notin> {(0, 1050, 1249)}"
    by (simp add: getReferenceId_def getPosition_def ex_al_def)
  have h6: "(getReferenceId ([ex_al] ! 0), getPosition ([ex_al] ! 0) + 80, getPosition ([ex_al] ! 0) + 579)
        \<notin> {(0, 1050, 1249)}"
    by (simp add: getReferenceId_def getPosition_def ex_al_def)
  show ?thesis
    using h1 h2 h3 h4 h5 h6 C1_example_hard_clip [OF h1 h2 h3 h4 h5 h6] by blast
qed

section \<open>The coordinates of the derived junctions\<close>

text \<open>
  C2. The claim places the junction of a ReferenceSkip at the leftmost position plus the
  lengths of all reference-consuming operations before it, ReferenceSkips included. Both
  loops leave the cursor \<open>lEnd\<close> where it is at a ReferenceSkip, so from the second
  skip on the junction they look up starts too early by the lengths of the skips before
  it. On the example at position 1000 the second skip covers 1280 to 1779
  (1000 + 50 + 200 + 30 = 1280), and both functions look up 1080 to 1579: with the index
  \<open>{(0, 1280, 1779)}\<close> the containment check returns false and the engine reports
  \<open>allBad\<close>, and with \<open>{(0, 1080, 1579)}\<close>, an interval that is no junction of the
  alignment, the check returns true and the engine keeps the segments next to the
  second skip. In general the walk places a junction as \<open>derived_junction_coordinates\<close>
  says.
\<close>

theorem C2_second_junction_misplaced:
  "getPosition ex_al + 50 + 200 + 30 = 1280
   \<and> map start (junctionsOf ex_refs ex_al) = [1050, 1080]
   \<and> map end_intron (junctionsOf ex_refs ex_al) = [1249, 1579]
   \<and> containsJunctionInSystem [ex_al] 0 ex_refs {(0, 1280, 1779)} = Inr (False, [ex_al])
   \<and> containsJunctionInSystem [ex_al] 0 ex_refs {(0, 1080, 1579)} = Inr (True, [ex_al])
   \<and> clipMSR HARD [ex_al] 0 ex_refs {(0, 1280, 1779)} = Inr ([ex_al, ex_all_clipped], 1, True)
   \<and> clipMSR HARD [ex_al] 0 ex_refs {(0, 1080, 1579)}
       = Inr ([ex_al, ex_al\<lparr>cigar := [\<lparr>type_op = CHR ''H'', length_op = 50\<rparr>,
                \<lparr>type_op = CHR ''N'', length_op = 200\<rparr>, \<lparr>type_op = CHR ''M'', length_op = 30\<rparr>,
                \<lparr>type_op = CHR ''N'', length_op = 500\<rparr>, \<lparr>type_op = CHR ''M'', length_op = 20\<rparr>]\<rparr>],
              1, False)"
  by (simp add: engine_eval contains_eval junctionsOf_def ex_all_clipped_def ex_al_def ex_refs_def)

section \<open>The reference length of the clipped copy\<close>

lemma sumRef_clipRel:
  assumes "list_all2 (clipRel modOp) xs ys" and "\<not> opConsumesReference modOp"
  shows "sumRefConsuming xs = sumRefConsuming ys + sumRefRewritten xs ys"
  using assms(1)
proof (induction rule: list_all2_induct)
  case Nil
  then show ?case by (simp add: sumRefConsuming_def sumRefRewritten_def)
next
  case (Cons x xs y ys)
  have "(if opConsumesReference (type_op x) then sint (length_op x) else 0)
          = (if opConsumesReference (type_op y) then sint (length_op y) else 0)
            + (if opConsumesReference (type_op x) \<and> type_op y \<noteq> type_op x
               then sint (length_op x) else 0)"
    using Cons(1) assms(2) by (auto simp: clipRel_def)
  then show ?case
    using Cons(3) by (simp add: sumRefConsuming_def sumRefRewritten_def)
qed

lemma sumRefRewritten_nonneg:
  assumes "\<forall>op\<in>set xs. 0 \<le> sint (length_op op)"
  shows "0 \<le> sumRefRewritten xs ys"
  unfolding sumRefRewritten_def
proof (rule sum_list_nonneg)
  fix v
  assume "v \<in> set (map (\<lambda>(x, y). if opConsumesReference (type_op x) \<and> type_op y \<noteq> type_op x
                                   then sint (length_op x) else 0) (zip xs ys))"
  then obtain x y where xy: "(x, y) \<in> set (zip xs ys)"
    and v: "v = (if opConsumesReference (type_op x) \<and> type_op y \<noteq> type_op x
                 then sint (length_op x) else 0)"
    by auto
  have "x \<in> set xs" using xy by (rule set_zip_leftD)
  then show "0 \<le> v" using assms v by simp
qed

text \<open>
  C7 as stated fails: on the example in Hard-clip mode the input's reference-consuming
  lengths add up to 800 and the output's to 780, because 20M became 20H and HardClip
  consumes no reference.
\<close>

theorem C7_counterexample:
  "clipMSR HARD [ex_al] 0 ex_refs {(0, 1050, 1249)} = Inr ([ex_al, ex_clipped], 1, False)
   \<and> sumRefConsuming (cigar ex_al) = 800
   \<and> sumRefConsuming (cigar ex_clipped) = 780
   \<and> sumRefConsuming (cigar ex_clipped) \<noteq> sumRefConsuming (cigar ex_al)"
  by (simp add: engine_eval sumRefConsuming_def ex_clipped_def ex_al_def ex_refs_def)

text \<open>
  C7, amended. In Hard and in Soft mode the sum of the lengths of the reference-consuming
  operations of the output is the sum for the input less the lengths of the
  reference-consuming operations whose kind the engine replaced; with no negative length
  in the input it is at most the input's sum. The stored fields \<open>alignedLength\<close> and
  \<open>position\<close> of the copy are those of the input.
\<close>

theorem C7_reference_sum_shrinks:
  assumes "a < length h" and "clipMode = HARD \<or> clipMode = SOFT"
    and "clipMSR clipMode h a refs js = Inr (h', p, allBad)"
  shows "sumRefConsuming (cigar (h ! a))
           = sumRefConsuming (cigar (h' ! p)) + sumRefRewritten (cigar (h ! a)) (cigar (h' ! p))
    \<and> ((\<forall>op\<in>set (cigar (h ! a)). 0 \<le> sint (length_op op))
         \<longrightarrow> sumRefConsuming (cigar (h' ! p)) \<le> sumRefConsuming (cigar (h ! a)))
    \<and> alignedLength (h' ! p) = alignedLength (h ! a)
    \<and> position (h' ! p) = position (h ! a)"
proof -
  note r = clipMSR_result [OF assms(1,3)]
  have m: "\<not> opConsumesReference (modOpFor clipMode)"
    using assms(2) by (auto simp: modOpFor_def opConsumesReference_def cigar_chars)
  have eq: "sumRefConsuming (cigar (h ! a))
           = sumRefConsuming (cigar (h' ! p)) + sumRefRewritten (cigar (h ! a)) (cigar (h' ! p))"
    using r(5) m by (rule sumRef_clipRel)
  have le: "sumRefConsuming (cigar (h' ! p)) \<le> sumRefConsuming (cigar (h ! a))"
    if "\<forall>op\<in>set (cigar (h ! a)). 0 \<le> sint (length_op op)"
    using eq sumRefRewritten_nonneg [OF that, of "cigar (h' ! p)"] by simp
  have "alignedLength (h' ! p) = alignedLength (h ! a)" "position (h' ! p) = position (h ! a)"
    by (subst r(4), simp)+
  then show ?thesis using eq le by blast
qed

theorem C7_witness:
  "(0::nat) < length [ex_al] \<and> (HARD = HARD \<or> HARD = SOFT)
   \<and> clipMSR HARD [ex_al] 0 ex_refs {(0, 1050, 1249)} = Inr ([ex_al, ex_clipped], 1, False)
   \<and> sumRefRewritten (cigar ([ex_al] ! 0)) (cigar ([ex_al, ex_clipped] ! 1)) = 20
   \<and> sumRefConsuming (cigar ([ex_al] ! 0)) = sumRefConsuming (cigar ([ex_al, ex_clipped] ! 1)) + 20
   \<and> sumRefConsuming (cigar ([ex_al, ex_clipped] ! 1)) \<le> sumRefConsuming (cigar ([ex_al] ! 0))
   \<and> alignedLength ([ex_al, ex_clipped] ! 1) = alignedLength ([ex_al] ! 0)"
proof -
  have h1: "(0::nat) < length [ex_al]" by simp
  have h2: "HARD = HARD \<or> HARD = SOFT" by simp
  have h3: "clipMSR HARD [ex_al] 0 ex_refs {(0, 1050, 1249)} = Inr ([ex_al, ex_clipped], 1, False)"
    by (simp add: engine_eval ex_clipped_def ex_al_def ex_refs_def)
  have nn: "\<forall>op\<in>set (cigar ([ex_al] ! 0)). 0 \<le> sint (length_op op)"
    by (simp add: ex_al_def)
  have rw: "sumRefRewritten (cigar ([ex_al] ! 0)) (cigar ([ex_al, ex_clipped] ! 1)) = 20"
    by (simp add: sumRefRewritten_def ex_clipped_def ex_al_def opConsumesReference_def cigar_chars)
  show ?thesis
    using h1 h2 h3 nn rw C7_reference_sum_shrinks [OF h1 h2 h3] by simp
qed

section \<open>Kinds that consume query and reference\<close>

text \<open>
  C9. \<open>opConsumesQuery\<close> is true exactly for Match, Insertion, SoftClip, SeqMatch and
  SeqMismatch, and \<open>opConsumesReference\<close> is true exactly for Match, Deletion,
  ReferenceSkip, SeqMatch and SeqMismatch. Both are functions of the kind character
  alone, and the statement ranges over every character, CIGAR constant or not.
\<close>

theorem C9_consumes_exactly:
  "opConsumesQuery k = (k \<in> {CHR ''M'', CHR ''I'', CHR ''S'', CHR ''='', CHR ''X''})
   \<and> opConsumesReference k = (k \<in> {CHR ''M'', CHR ''D'', CHR ''N'', CHR ''='', CHR ''X''})"
  by (simp add: opConsumesQuery_def opConsumesReference_def cigar_chars)

end
